theory Spec2Isabelle
  imports Main "HOL-Library.Sublist"
begin

section \<open>JavaScript strings\<close>

text \<open>
  A string is a list of 8-bit characters, read as the code units U+0000 .. U+00FF.
  On these, \<^verbatim>\<open>trim\<close> and the regular expression class \<^verbatim>\<open>\s\<close> see the same white
  space (TAB, LF, VT, FF, CR, SP, NBSP), and \<^verbatim>\<open>toLowerCase\<close> shifts A-Z and the
  Latin-1 capitals (U+00C0 .. U+00DE without U+00D7) by 32.
\<close>

definition js_space :: "char \<Rightarrow> bool" where
  "js_space c = (let n = (of_char c :: nat) in (9 \<le> n \<and> n \<le> 13) \<or> n = 32 \<or> n = 160)"

definition js_trim :: "string \<Rightarrow> string" where
  "js_trim s = rev (dropWhile js_space (rev (dropWhile js_space s)))"

definition js_lower_char :: "char \<Rightarrow> char" where
  "js_lower_char c =
     (let n = (of_char c :: nat)
      in if (65 \<le> n \<and> n \<le> 90) \<or> (192 \<le> n \<and> n \<le> 222 \<and> n \<noteq> 215)
         then char_of (n + 32) else c)"

definition toLowerCase :: "string \<Rightarrow> string" where
  "toLowerCase s = map js_lower_char s"

definition startsWith :: "string \<Rightarrow> string \<Rightarrow> bool" where
  "startsWith s p = (take (length p) s = p)"

fun js_includes :: "string \<Rightarrow> string \<Rightarrow> bool" where
  "js_includes [] p = (p = [])"
| "js_includes (c # cs) p = (startsWith (c # cs) p \<or> js_includes cs p)"

text \<open>\<^verbatim>\<open>s.split(sep)\<close> for a one-character separator: never the empty list.\<close>

fun split_on :: "char \<Rightarrow> string \<Rightarrow> string list" where
  "split_on sep [] = [[]]"
| "split_on sep (c # cs) =
     (if c = sep then [] # split_on sep cs
      else (case split_on sep cs of
              [] \<Rightarrow> [[c]]
            | p # ps \<Rightarrow> (c # p) # ps))"

text \<open>An array read at an index: \<^verbatim>\<open>undefined\<close> out of range.\<close>

definition at_index :: "'a list \<Rightarrow> nat \<Rightarrow> 'a option" where
  "at_index xs i = (if i < length xs then Some (xs ! i) else None)"

section \<open>The JID library\<close>

text \<open>
  normalize.ts imports \<^verbatim>\<open>jid\<close> from the package @xmpp/jid, a dependency that is not a
  file of the repository. Its functions are modelled after the package's own source:
  \<^verbatim>\<open>parse\<close> (lib/parse.js), the constructor, \<^verbatim>\<open>bare\<close> and \<^verbatim>\<open>toString\<close> of the class
  JID (lib/JID.js), and \<^verbatim>\<open>detect\<close> and \<^verbatim>\<open>escape\<close> of XEP-0106 (lib/escaping.js).
  The constructor throws a TypeError on an empty domain: that is the value \<open>None\<close>.
\<close>

definition backslash :: char where
  "backslash = CHR 0x5C"

text \<open>\<^verbatim>\<open>s.replace(/\\ab/g, "")\<close>: the matches are taken left to right, without rescanning.\<close>

fun remove_seq :: "char \<Rightarrow> char \<Rightarrow> string \<Rightarrow> string" where
  "remove_seq a b (c1 # c2 # c3 # cs) =
     (if c1 = backslash \<and> c2 = a \<and> c3 = b then remove_seq a b cs
      else c1 # remove_seq a b (c2 # c3 # cs))"
| "remove_seq a b cs = cs"

definition escape_codes :: "(char \<times> char) list" where
  "escape_codes =
     [(CHR ''2'', CHR ''0''), (CHR ''2'', CHR ''2''), (CHR ''2'', CHR ''6''),
      (CHR ''2'', CHR ''7''), (CHR ''2'', CHR ''f''), (CHR ''3'', CHR ''a''),
      (CHR ''3'', CHR ''c''), (CHR ''3'', CHR ''e''), (CHR ''4'', CHR ''0''),
      (CHR ''5'', CHR ''c'')]"

text \<open>The class \<^verbatim>\<open>[ "&'/:<>@\\]\<close> of the characters XEP-0106 escapes.\<close>

definition jid_special :: "char \<Rightarrow> bool" where
  "jid_special c =
     (c = CHR '' '' \<or> c = CHR 0x22 \<or> c = CHR ''&'' \<or> c = CHR 0x27 \<or> c = CHR ''/''
      \<or> c = CHR '':'' \<or> c = CHR ''<'' \<or> c = CHR ''>'' \<or> c = CHR ''@'' \<or> c = backslash)"

definition strip_sequences :: "string \<Rightarrow> string" where
  "strip_sequences s = foldl (\<lambda>acc ab. remove_seq (fst ab) (snd ab) acc) s escape_codes"

definition jid_detect :: "string \<Rightarrow> bool" where
  "jid_detect l = (if l = [] then False else list_ex jid_special (strip_sequences l))"

definition replace_char :: "char \<Rightarrow> string \<Rightarrow> string \<Rightarrow> string" where
  "replace_char c rep s = concat (map (\<lambda>x. if x = c then rep else [x]) s)"

definition escape_table :: "(char \<times> string) list" where
  "escape_table =
     [(backslash, [backslash, CHR ''5'', CHR ''c'']),
      (CHR '' '', [backslash, CHR ''2'', CHR ''0'']),
      (CHR 0x22, [backslash, CHR ''2'', CHR ''2'']),
      (CHR ''&'', [backslash, CHR ''2'', CHR ''6'']),
      (CHR 0x27, [backslash, CHR ''2'', CHR ''7'']),
      (CHR ''/'', [backslash, CHR ''2'', CHR ''f'']),
      (CHR '':'', [backslash, CHR ''3'', CHR ''a'']),
      (CHR ''<'', [backslash, CHR ''3'', CHR ''c'']),
      (CHR ''>'', [backslash, CHR ''3'', CHR ''e'']),
      (CHR ''@'', [backslash, CHR ''4'', CHR ''0''])]"

definition jid_escape :: "string \<Rightarrow> string" where
  "jid_escape l = foldl (\<lambda>acc cr. replace_char (fst cr) (snd cr) acc) (js_trim l) escape_table"

record jid =
  jlocal :: string
  jdomain :: string
  jresource :: string

text \<open>\<^verbatim>\<open>setLocal\<close>: escape when an unescaped special character is detected, then lower.\<close>

definition setLocal :: "string \<Rightarrow> string" where
  "setLocal l = toLowerCase (if jid_detect l then jid_escape l else l)"

text \<open>
  \<^verbatim>\<open>new JID(local, domain, resource)\<close>; an \<^verbatim>\<open>undefined\<close> or \<^verbatim>\<open>null\<close> local or resource
  is stored as the empty string, so the arguments are plain strings here.
\<close>

definition jid_new :: "string \<Rightarrow> string \<Rightarrow> string \<Rightarrow> jid option" where
  "jid_new l d r =
     (if d = [] then None
      else Some \<lparr>jlocal = setLocal l, jdomain = toLowerCase d, jresource = r\<rparr>)"

definition parseJid :: "string \<Rightarrow> jid option" where
  "parseJid s =
     (let r = (if CHR ''/'' \<in> set s then drop 1 (dropWhile (\<lambda>c. c \<noteq> CHR ''/'') s) else []);
          s1 = (if CHR ''/'' \<in> set s then takeWhile (\<lambda>c. c \<noteq> CHR ''/'') s else s);
          l = (if CHR ''@'' \<in> set s1 then takeWhile (\<lambda>c. c \<noteq> CHR ''@'') s1 else []);
          d = (if CHR ''@'' \<in> set s1 then drop 1 (dropWhile (\<lambda>c. c \<noteq> CHR ''@'') s1) else s1)
      in jid_new l d r)"

definition jid_bare :: "jid \<Rightarrow> jid option" where
  "jid_bare j = (if jresource j \<noteq> [] then jid_new (jlocal j) (jdomain j) [] else Some j)"

definition jid_toString :: "jid \<Rightarrow> string" where
  "jid_toString j =
     (let s = jdomain j;
          s = (if jlocal j \<noteq> [] then jlocal j @ ''@'' @ s else s)
      in if jresource j \<noteq> [] then s @ ''/'' @ jresource j else s)"

text \<open>\<^verbatim>\<open>parseJid(x).bare().toString()\<close>, \<open>None\<close> when the parse throws.\<close>

definition bare_string :: "string \<Rightarrow> string option" where
  "bare_string s =
     (case parseJid s of
        None \<Rightarrow> None
      | Some j \<Rightarrow> (case jid_bare j of None \<Rightarrow> None | Some b \<Rightarrow> Some (jid_toString b)))"

section \<open>JID utilities (normalize.ts)\<close>

text \<open>\<^verbatim>\<open>/^[^\s]+@[^\s]+$/u\<close>: no white space, and an @ that is neither first nor last.\<close>

definition XMPP_TARGET_PATTERN :: "string \<Rightarrow> bool" where
  "XMPP_TARGET_PATTERN s = (list_all (\<lambda>c. \<not> js_space c) s \<and> CHR ''@'' \<in> set (butlast (tl s)))"

definition isRoomJid :: "string \<Rightarrow> bool" where
  "isRoomJid jidString =
     (case parseJid jidString of
        None \<Rightarrow> False
      | Some parsed \<Rightarrow>
          (let domain = toLowerCase (jdomain parsed)
           in js_includes domain ''conference'' \<or> js_includes domain ''muc''))"

definition normalizeXmppBareJid :: "string \<Rightarrow> string" where
  "normalizeXmppBareJid jidString =
     (case bare_string jidString of Some b \<Rightarrow> b | None \<Rightarrow> js_trim jidString)"

definition looksLikeXmppJid :: "string \<Rightarrow> bool" where
  "looksLikeXmppJid raw =
     (let trimmed = js_trim raw
      in if trimmed = [] then False
         else if \<not> XMPP_TARGET_PATTERN trimmed then False
         else (case parseJid trimmed of None \<Rightarrow> False | Some _ \<Rightarrow> True))"

text \<open>
  The three prefix tests all read \<^verbatim>\<open>lowered\<close>, computed once from the trimmed input,
  while the slices cut \<^verbatim>\<open>target\<close>.
\<close>

definition normalizeXmppJid :: "string \<Rightarrow> string option" where
  "normalizeXmppJid raw =
     (let trimmed = js_trim raw
      in if trimmed = [] then None
         else
           (let lowered = toLowerCase trimmed;
                target = trimmed;
                target = (if startsWith lowered ''xmpp:'' then js_trim (drop 5 target) else target);
                target = (if startsWith lowered ''room:'' then js_trim (drop 5 target) else target);
                target = (if startsWith lowered ''user:'' then js_trim (drop 5 target) else target)
            in if target = [] \<or> \<not> looksLikeXmppJid target then None
               else bare_string target))"

definition normalizeXmppMessagingTarget :: "string \<Rightarrow> string option" where
  "normalizeXmppMessagingTarget raw = normalizeXmppJid raw"



record inbound_message =
  messageId :: string
  target :: string
  senderJid :: string
  senderBareJid :: string
  senderResource :: "string option"
  senderNickname :: "string option"
  text_body :: string
  timestamp :: int
  isGroup :: bool
  stanzaId :: "string option"

text \<open>A \<^verbatim>\<open>Set\<close> keeps the order of first insertion.\<close>

definition set_add :: "'a list \<Rightarrow> 'a \<Rightarrow> 'a list" where
  "set_add xs x = (if x \<in> set xs then xs else xs @ [x])"

definition buildXmppAllowlistCandidates :: "inbound_message \<Rightarrow> string list" where
  "buildXmppAllowlistCandidates m =
     (let candidates = [];
          candidates = (if senderBareJid m \<noteq> []
                        then set_add candidates (toLowerCase (senderBareJid m)) else candidates);
          candidates = (if senderJid m \<noteq> []
                        then set_add candidates (toLowerCase (senderJid m)) else candidates)
      in case senderNickname m of
           Some nick \<Rightarrow>
             (if isGroup m \<and> nick \<noteq> [] then set_add candidates (toLowerCase nick)
              else candidates)
         | None \<Rightarrow> candidates)"



section \<open>Room policy (policy.ts)\<close>

datatype group_policy = GroupAllowlist | GroupOpen | GroupDisabled

text \<open>
  \<^verbatim>\<open>XmppRoomConfig\<close>: the fields the access decisions read. An absent \<^verbatim>\<open>allowFrom\<close>
  is the empty list, as \<^verbatim>\<open>normalizeXmppAllowlist\<close> reads it (\<^verbatim>\<open>entries ?? []\<close>).
\<close>

record room_config =
  requireMention :: "bool option"
  enabled :: "bool option"
  roomAllowFrom :: "string list"

text \<open>
  \<^verbatim>\<open>Record<string, XmppRoomConfig>\<close>: the own keys of the object in the order of
  \<^verbatim>\<open>Object.keys\<close>, each with its configuration.
\<close>

type_synonym rooms = "(string \<times> room_config) list"

text \<open>
  A lookup \<^verbatim>\<open>rooms[key]\<close> finds an own key first and then the members every object
  inherits from \<^verbatim>\<open>Object.prototype\<close>. An inherited member is a function, or the prototype
  itself for \<^verbatim>\<open>__proto__\<close>: a truthy value on which \<^verbatim>\<open>requireMention\<close>, \<^verbatim>\<open>enabled\<close> and
  \<^verbatim>\<open>allowFrom\<close> are all undefined.
\<close>

definition object_prototype_members :: "string list" where
  "object_prototype_members =
     [''constructor'', ''__defineGetter__'', ''__defineSetter__'', ''hasOwnProperty'',
      ''__lookupGetter__'', ''__lookupSetter__'', ''isPrototypeOf'', ''propertyIsEnumerable'',
      ''toString'', ''valueOf'', ''__proto__'', ''toLocaleString'']"

definition inherited_member :: room_config where
  "inherited_member = \<lparr>requireMention = None, enabled = None, roomAllowFrom = []\<rparr>"

definition rooms_get :: "rooms \<Rightarrow> string \<Rightarrow> room_config option" where
  "rooms_get rms key =
     (case map_of rms key of
        Some c \<Rightarrow> Some c
      | None \<Rightarrow> (if key \<in> set object_prototype_members then Some inherited_member else None))"

record room_match =
  allowed :: bool
  roomConfig :: "room_config option"
  wildcardConfig :: "room_config option"
  hasConfiguredRooms :: bool


definition resolveXmppRoomMatch :: "rooms \<Rightarrow> string \<Rightarrow> room_match" where
  "resolveXmppRoomMatch rms tgt =
     (let hasRooms = (rms \<noteq> []) in
      case rooms_get rms tgt of
        Some direct \<Rightarrow>
          \<lparr>allowed = True, roomConfig = Some direct,
           wildcardConfig = rooms_get rms ''*'', hasConfiguredRooms = hasRooms\<rparr>
      | None \<Rightarrow>
          (let targetLower = toLowerCase tgt;
               directKey = find (\<lambda>key. toLowerCase key = targetLower) (map fst rms)
           in case (case directKey of
                      None \<Rightarrow> None
                    | Some k \<Rightarrow> (if k = [] then None else rooms_get rms k)) of
                Some matched \<Rightarrow>
                  \<lparr>allowed = True, roomConfig = Some matched,
                   wildcardConfig = rooms_get rms ''*'', hasConfiguredRooms = hasRooms\<rparr>
              | None \<Rightarrow>
                  (case rooms_get rms ''*'' of
                     Some wildcard \<Rightarrow>
                       \<lparr>allowed = True, roomConfig = None,
                        wildcardConfig = Some wildcard, hasConfiguredRooms = hasRooms\<rparr>
                   | None \<Rightarrow>
                       \<lparr>allowed = False, roomConfig = None,
                        wildcardConfig = None, hasConfiguredRooms = hasRooms\<rparr>)))"






section \<open>From a message event to an inbound message (monitor.ts)\<close>

record inbound_target =
  tIsGroup :: bool
  tTarget :: string
  tSenderJid :: string
  tSenderBareJid :: string
  tSenderNickname :: "string option"
  tSenderResource :: "string option"

definition resolveXmppInboundTarget :: "string \<Rightarrow> string \<Rightarrow> inbound_target" where
  "resolveXmppInboundTarget frm typ =
     (if typ = ''groupchat'' then
        (let parts = split_on CHR ''/'' frm;
             roomJid = (case parts of [] \<Rightarrow> [] | r # _ \<Rightarrow> r);
             nickname = at_index parts 1
         in \<lparr>tIsGroup = True, tTarget = roomJid, tSenderJid = frm, tSenderBareJid = roomJid,
             tSenderNickname = nickname, tSenderResource = None\<rparr>)
      else
        (let bareJid = normalizeXmppBareJid frm;
             resource = (if js_includes frm ''/'' then at_index (split_on CHR ''/'' frm) 1 else None)
         in \<lparr>tIsGroup = False, tTarget = bareJid, tSenderJid = frm, tSenderBareJid = bareJid,
             tSenderNickname = None, tSenderResource = resource\<rparr>))"

text \<open>
  \<^verbatim>\<open>XmppMessageEvent\<close>, as the client hands it to \<^verbatim>\<open>onMessage\<close>; \<open>evDelay\<close> is the
  time of the delay stamp in milliseconds.
\<close>

record message_event =
  evFrom :: string
  evTo :: string
  evBody :: string
  evType :: string
  evId :: "string option"
  evDelay :: "int option"

datatype dm_policy = DmPairing | DmAllowlist | DmOpen | DmDisabled

text \<open>\<^verbatim>\<open>XmppAccountConfig\<close>: the fields the inbound decisions read.\<close>

record account_config =
  dmPolicy :: "dm_policy option"
  groupPolicy :: "group_policy option"
  allowFrom :: "string list"
  groupAllowFrom :: "string list"
  rooms :: rooms

text \<open>\<^verbatim>\<open>ResolvedXmppAccount\<close>; \<open>jid\<close> and \<open>bareJid\<close> hold the same bare JID.\<close>

record resolved_account =
  accountId :: string
  configured :: bool
  accJid :: string
  bareJid :: string
  config :: account_config

text \<open>
  The bare JID \<^verbatim>\<open>resolveXmppAccount\<close> stores for the configured JID (accounts.ts):
  \<^verbatim>\<open>jid ? normalizeXmppBareJid(jid) : ""\<close>, with \<^verbatim>\<open>jid\<close> the trimmed setting.
\<close>

definition resolved_bareJid :: "string \<Rightarrow> string" where
  "resolved_bareJid setting =
     (let jid = js_trim setting in if jid \<noteq> [] then normalizeXmppBareJid jid else [])"

datatype monitor_effect =
    RecordInboundActivity string int
  | CallOnMessage inbound_message
  | CallHandleXmppInbound inbound_message

text \<open>
  The \<^verbatim>\<open>onMessage\<close> callback of \<^verbatim>\<open>monitorXmppProvider\<close>. \<open>clientSet\<close> says that the
  variable \<^verbatim>\<open>client\<close> is not null, \<open>customOnMessage\<close> that \<^verbatim>\<open>opts.onMessage\<close> is given;
  \<open>now\<close> is \<^verbatim>\<open>Date.now()\<close> and \<open>freshId\<close> the result of \<^verbatim>\<open>makeXmppMessageId()\<close>.
  The result lists, in order, what the callback goes on to call.
\<close>

definition monitor_onMessage ::
  "bool \<Rightarrow> bool \<Rightarrow> int \<Rightarrow> string \<Rightarrow> resolved_account \<Rightarrow> message_event \<Rightarrow> monitor_effect list" where
  "monitor_onMessage clientSet customOnMessage now freshId account event =
     (if \<not> clientSet then []
      else
        (let fromBareJid = normalizeXmppBareJid (evFrom event)
         in if fromBareJid = bareJid account then []
            else
              (let inboundTarget = resolveXmppInboundTarget (evFrom event) (evType event);
                   message =
                     \<lparr>messageId = (case evId event of
                                     None \<Rightarrow> freshId
                                   | Some i \<Rightarrow> (if i = [] then freshId else i)),
                      target = tTarget inboundTarget,
                      senderJid = tSenderJid inboundTarget,
                      senderBareJid = tSenderBareJid inboundTarget,
                      senderResource = tSenderResource inboundTarget,
                      senderNickname = tSenderNickname inboundTarget,
                      text_body = evBody event,
                      timestamp = (case evDelay event of Some d \<Rightarrow> d | None \<Rightarrow> now),
                      isGroup = tIsGroup inboundTarget,
                      stanzaId = evId event\<rparr>
               in RecordInboundActivity (accountId account) (timestamp message)
                  # (if customOnMessage then [CallOnMessage message]
                     else [CallHandleXmppInbound message]))))"

section \<open>The host and the wire\<close>

datatype msg_type = Chat | Groupchat

text \<open>The message stanza \<^verbatim>\<open>client.sendMessage(to, body, type)\<close> puts on the wire.\<close>

record outbound =
  obTo :: string
  obBody :: string
  obType :: msg_type

text \<open>
  What the surrounding gateway (the plugin runtime \<^verbatim>\<open>core\<close>, the configuration and the
  XMPP connection) answers during one call; none of it is code of the adapter.
  \<^item> \<open>storeAllowFrom\<close>: the result of \<^verbatim>\<open>readAllowFromStore\<close>, the empty list when it rejects;
  \<^item> \<open>allowTextCommands\<close>: \<^verbatim>\<open>shouldHandleTextCommands\<close>;
  \<^item> \<open>useAccessGroups\<close>: \<^verbatim>\<open>config.commands?.useAccessGroups !== false\<close>;
  \<^item> \<open>hasControlCommand\<close>, \<open>matchesMentionPatterns\<close>: the host's tests on the trimmed body;
  \<^item> \<open>buildPairingReply\<close>: the pairing text for an id line and a code;
  \<^item> \<open>issueCode\<close>: the code the pairing store issues for a new id;
  \<^item> \<open>convertMarkdownTables\<close>: the table conversion in the account's table mode;
  \<^item> \<open>transport\<close>: whether the connection delivers a stanza (\<open>False\<close>: the send rejects);
  \<^item> \<open>defaultGroupPolicy\<close>: \<^verbatim>\<open>config.channels?.defaults?.groupPolicy\<close>.
\<close>

record host =
  storeAllowFrom :: "string list"
  allowTextCommands :: bool
  useAccessGroups :: bool
  hasControlCommand :: "string \<Rightarrow> bool"
  matchesMentionPatterns :: "string \<Rightarrow> bool"
  buildPairingReply :: "string \<Rightarrow> string \<Rightarrow> string"
  issueCode :: "string \<Rightarrow> string"
  convertMarkdownTables :: "string \<Rightarrow> string"
  transport :: "outbound \<Rightarrow> bool"
  defaultGroupPolicy :: "group_policy option"

section \<open>Outbound sender (send.ts)\<close>

datatype send_error =
    NotConfigured string
  | InvalidTarget string
  | EmptyMessage
  | TransportFailure

record send_options =
  optReplyTo :: "string option"
  optTarget :: "string option"

definition resolveTarget :: "string \<Rightarrow> send_options \<Rightarrow> send_error + string" where
  "resolveTarget to opts =
     (case normalizeXmppMessagingTarget to of
        Some fromArg \<Rightarrow> Inr fromArg
      | None \<Rightarrow>
          (case normalizeXmppMessagingTarget (case optTarget opts of None \<Rightarrow> [] | Some t \<Rightarrow> t) of
             Some fromOpt \<Rightarrow> Inr fromOpt
           | None \<Rightarrow> Inl (InvalidTarget to)))"

definition reply_marker :: "string \<Rightarrow> string" where
  "reply_marker r = [CHR 0x0A, CHR 0x0A] @ ''[reply:'' @ r @ '']''"

text \<open>
  \<^verbatim>\<open>sendMessageXmpp\<close>, with the runtime initialised. The stanza goes through the live
  client when it is ready and through a transient one otherwise; either way it is the
  same stanza, and \<open>transport\<close> says whether connecting and sending succeed. The result
  is the target and the stanza sent; the message id is a fresh UUID and is left out.
\<close>

definition sendMessageXmpp ::
  "host \<Rightarrow> resolved_account \<Rightarrow> string \<Rightarrow> string \<Rightarrow> send_options \<Rightarrow> send_error + outbound" where
  "sendMessageXmpp h account to txt opts =
     (if \<not> configured account then Inl (NotConfigured (accountId account))
      else
        (case resolveTarget to opts of
           Inl e \<Rightarrow> Inl e
         | Inr tgt \<Rightarrow>
             (let prepared = convertMarkdownTables h (js_trim txt);
                  payload = (case optReplyTo opts of
                               None \<Rightarrow> prepared
                             | Some r \<Rightarrow> (if r = [] then prepared else prepared @ reply_marker r))
              in if js_trim payload = [] then Inl EmptyMessage
                 else
                   (let messageType = (if isRoomJid tgt then Groupchat else Chat);
                        stanza = \<lparr>obTo = tgt, obBody = payload, obType = messageType\<rparr>
                    in if transport h stanza then Inr stanza else Inl TransportFailure))))"

section \<open>Inbound pipeline (inbound.ts)\<close>

record reply_payload =
  payloadText :: "string option"
  mediaUrls :: "string list"
  mediaUrl :: "string option"
  replyToId :: "string option"

definition join_lines :: "string list \<Rightarrow> string" where
  "join_lines xs = (case xs of [] \<Rightarrow> [] | y # ys \<Rightarrow> foldl (\<lambda>acc z. acc @ [CHR 0x0A] @ z) y ys)"

text \<open>The type \<^verbatim>\<open>deliverXmppReply\<close> picks when it sends through the client it was given.\<close>

definition live_message_type :: "string \<Rightarrow> msg_type" where
  "live_message_type tgt =
     (if js_includes tgt ''@conference.'' \<or> js_includes tgt ''@muc.'' then Groupchat else Chat)"

text \<open>
  \<^verbatim>\<open>deliverXmppReply\<close>; \<open>haveClient\<close> says that \<^verbatim>\<open>params.client\<close> is given. The result is
  the list of stanzas sent (none for an empty payload), or the error thrown.
\<close>

definition deliverXmppReply ::
  "host \<Rightarrow> resolved_account \<Rightarrow> bool \<Rightarrow> reply_payload \<Rightarrow> string \<Rightarrow> send_error + outbound list" where
  "deliverXmppReply h account haveClient payload tgt =
     (let txt = (case payloadText payload of None \<Rightarrow> [] | Some t \<Rightarrow> t);
          mediaList = (if mediaUrls payload \<noteq> [] then mediaUrls payload
                       else (case mediaUrl payload of
                               None \<Rightarrow> []
                             | Some u \<Rightarrow> (if u = [] then [] else [u])))
      in if js_trim txt = [] \<and> mediaList = [] then Inr []
         else
           (let mediaBlock = (if mediaList \<noteq> []
                              then join_lines (map (\<lambda>url. ''Attachment: '' @ url) mediaList)
                              else []);
                combined = (if js_trim txt \<noteq> []
                            then (if mediaBlock \<noteq> []
                                  then js_trim txt @ [CHR 0x0A, CHR 0x0A] @ mediaBlock
                                  else js_trim txt)
                            else mediaBlock)
            in if haveClient then
                 (let stanza = \<lparr>obTo = tgt, obBody = combined, obType = live_message_type tgt\<rparr>
                  in if transport h stanza then Inr [stanza] else Inl TransportFailure)
               else
                 (case sendMessageXmpp h account tgt combined
                         \<lparr>optReplyTo = replyToId payload, optTarget = None\<rparr> of
                    Inl e \<Rightarrow> Inl e
                  | Inr stanza \<Rightarrow> Inr [stanza])))"


























section \<open>Connecting (client.ts, probe.ts)\<close>

text \<open>
  What \<^verbatim>\<open>xmpp.start()\<close> does after it is called: it settles after so many milliseconds,
  resolved or rejected with a message, or it never settles.
\<close>

datatype start_behaviour =
    Resolves nat
  | Rejects nat string
  | NeverSettles

datatype connect_error =
    InvalidJidFormat string
  | StartFailed string
  | ConnectionTimeout

text \<open>The calls made on the underlying client.\<close>

datatype client_call = CallStart | CallStop

record connect_options =
  optJid :: string
  connectTimeoutMs :: "int option"

text \<open>
  How the call of \<^verbatim>\<open>connectXmppClient\<close> ends: \<open>settled\<close> is \<open>None\<close> when the promise never
  settles, else the time in milliseconds and the client's bare JID or the error; \<open>calls\<close>
  are the calls made on the underlying client by then.
\<close>

record connect_result =
  settled :: "(nat \<times> (connect_error + string)) option"
  calls :: "client_call list"

text \<open>The check on \<^verbatim>\<open>options.jid.split("@")\<close>: a local part and a domain, both non-empty.\<close>

definition jid_localpart :: "string \<Rightarrow> string" where
  "jid_localpart j = (case split_on CHR ''@'' j of [] \<Rightarrow> [] | l # _ \<Rightarrow> l)"

definition jid_domainpart :: "string \<Rightarrow> string" where
  "jid_domainpart j = (case at_index (split_on CHR ''@'' j) 1 of None \<Rightarrow> [] | Some d \<Rightarrow> d)"

text \<open>\<^verbatim>\<open>options.connectTimeoutMs || 15000\<close>: an absent or zero timeout is 15000 ms.\<close>

definition effective_timeout :: "connect_options \<Rightarrow> int" where
  "effective_timeout options =
     (case connectTimeoutMs options of None \<Rightarrow> 15000 | Some t \<Rightarrow> (if t = 0 then 15000 else t))"

text \<open>
  \<^verbatim>\<open>connectXmppClient\<close>, without an abort signal. \<^verbatim>\<open>Promise.race\<close> takes the start when it
  settles before the timer fires, and the timer's rejection otherwise. Nothing but
  \<^verbatim>\<open>xmpp.start()\<close> is called on the underlying client before the promise settles.
\<close>

definition connectXmppClient :: "connect_options \<Rightarrow> start_behaviour \<Rightarrow> connect_result" where
  "connectXmppClient options start =
     (let localpart = jid_localpart (optJid options);
          domain = jid_domainpart (optJid options)
      in if localpart = [] \<or> domain = []
         then \<lparr>settled = Some (0, Inl (InvalidJidFormat (optJid options))), calls = []\<rparr>
         else
           (let timeoutMs = effective_timeout options;
                bare = localpart @ ''@'' @ domain
            in if timeoutMs > 0 then
                 (case start of
                    Resolves t \<Rightarrow>
                      (if int t < timeoutMs
                       then \<lparr>settled = Some (t, Inr bare), calls = [CallStart]\<rparr>
                       else \<lparr>settled = Some (nat timeoutMs, Inl ConnectionTimeout),
                             calls = [CallStart]\<rparr>)
                  | Rejects t msg \<Rightarrow>
                      (if int t < timeoutMs
                       then \<lparr>settled = Some (t, Inl (StartFailed msg)), calls = [CallStart]\<rparr>
                       else \<lparr>settled = Some (nat timeoutMs, Inl ConnectionTimeout),
                             calls = [CallStart]\<rparr>)
                  | NeverSettles \<Rightarrow>
                      \<lparr>settled = Some (nat timeoutMs, Inl ConnectionTimeout), calls = [CallStart]\<rparr>)
               else
                 (case start of
                    Resolves t \<Rightarrow> \<lparr>settled = Some (t, Inr bare), calls = [CallStart]\<rparr>
                  | Rejects t msg \<Rightarrow>
                      \<lparr>settled = Some (t, Inl (StartFailed msg)), calls = [CallStart]\<rparr>
                  | NeverSettles \<Rightarrow> \<lparr>settled = None, calls = [CallStart]\<rparr>)))"

text \<open>The start has not settled when so many milliseconds have passed.\<close>

definition still_pending :: "start_behaviour \<Rightarrow> int \<Rightarrow> bool" where
  "still_pending start ms =
     (case start of
        Resolves t \<Rightarrow> ms \<le> int t
      | Rejects t msg \<Rightarrow> ms \<le> int t
      | NeverSettles \<Rightarrow> True)"

text \<open>The options \<^verbatim>\<open>probeXmpp\<close> connects with, for its optional \<^verbatim>\<open>timeoutMs\<close>.\<close>

definition probe_options :: "resolved_account \<Rightarrow> int option \<Rightarrow> connect_options" where
  "probe_options account timeoutMs =
     \<lparr>optJid = accJid account,
      connectTimeoutMs = Some (case timeoutMs of None \<Rightarrow> 8000 | Some t \<Rightarrow> t)\<rparr>"

section \<open>Scenarios\<close>

text \<open>
  The inbound message the monitor builds for a stanza with the given sender, type and
  body (no id, no delay stamp).
\<close>

definition inbound_of :: "string \<Rightarrow> string \<Rightarrow> string \<Rightarrow> inbound_message" where
  "inbound_of frm typ body =
     (let t = resolveXmppInboundTarget frm typ
      in \<lparr>messageId = ''id-1'', target = tTarget t, senderJid = tSenderJid t,
          senderBareJid = tSenderBareJid t, senderResource = tSenderResource t,
          senderNickname = tSenderNickname t, text_body = body, timestamp = 0,
          isGroup = tIsGroup t, stanzaId = None\<rparr>)"

text \<open>
  The account \<^verbatim>\<open>agent@localhost\<close> of the spec's end-to-end scenarios, for a given
  configuration, and a host with an empty pairing allowlist that takes a body starting
  with a slash for a control command.
\<close>

definition scenario_account :: "account_config \<Rightarrow> resolved_account" where
  "scenario_account cfg =
     \<lparr>accountId = ''default'', configured = True, accJid = ''agent@localhost'',
      bareJid = ''agent@localhost'', config = cfg\<rparr>"

definition scenario_host :: host where
  "scenario_host =
     \<lparr>storeAllowFrom = [], allowTextCommands = True, useAccessGroups = True,
      hasControlCommand = (\<lambda>body. startsWith body ''/''),
      matchesMentionPatterns = (\<lambda>body. False),
      buildPairingReply = (\<lambda>idLine code. idLine @ '' Pairing code: '' @ code),
      issueCode = (\<lambda>ident. ''CODE1''),
      convertMarkdownTables = (\<lambda>t. t),
      transport = (\<lambda>stanza. True),
      defaultGroupPolicy = None\<rparr>"

definition allowlist_no_rooms :: account_config where
  "allowlist_no_rooms =
     \<lparr>dmPolicy = None, groupPolicy = Some GroupAllowlist, allowFrom = [],
      groupAllowFrom = [], rooms = []\<rparr>"

section \<open>Auxiliary notions for the JID library\<close>

text \<open>The characters \<^verbatim>\<open>toLowerCase\<close> changes, or produces from another one.\<close>

definition js_cased :: "char \<Rightarrow> bool" where
  "js_cased c =
     (let n = (of_char c :: nat)
      in (65 \<le> n \<and> n \<le> 90) \<or> (97 \<le> n \<and> n \<le> 122)
         \<or> (192 \<le> n \<and> n \<le> 222 \<and> n \<noteq> 215) \<or> (224 \<le> n \<and> n \<le> 254 \<and> n \<noteq> 247))"

text \<open>What \<^verbatim>\<open>escape\<close> turns one character into, by its table.\<close>

definition escape_char :: "char \<Rightarrow> string" where
  "escape_char c = (case map_of escape_table c of Some rep \<Rightarrow> rep | None \<Rightarrow> [c])"

text \<open>
  A string made of characters that are not special and of escape sequences with codes
  in a given list.
\<close>

fun well_escaped :: "(char \<times> char) list \<Rightarrow> string \<Rightarrow> bool" where
  "well_escaped cs [] = True"
| "well_escaped cs (c # s) =
     (if c = backslash
      then (case s of a # b # rest \<Rightarrow> (a, b) \<in> set cs \<and> well_escaped cs rest | _ \<Rightarrow> False)
      else \<not> jid_special c \<and> well_escaped cs s)"

text \<open>The string holds a backslash followed by the two given characters.\<close>

fun has_triple :: "char \<Rightarrow> char \<Rightarrow> string \<Rightarrow> bool" where
  "has_triple x y (c1 # c2 # c3 # cs) =
     ((c1 = backslash \<and> c2 = x \<and> c3 = y) \<or> has_triple x y (c2 # c3 # cs))"
| "has_triple x y cs = False"

text \<open>
  A code of two characters, neither a backslash, the first without case and the second
  in lower case.
\<close>

definition good_code :: "char \<times> char \<Rightarrow> bool" where
  "good_code ab = (fst ab \<noteq> backslash \<and> snd ab \<noteq> backslash \<and> \<not> js_cased (fst ab)
                   \<and> js_lower_char (snd ab) = snd ab)"

text \<open>
  The value of the variable \<^verbatim>\<open>target\<close> of \<^verbatim>\<open>normalizeXmppJid\<close> when it reaches the validity
  check: the trimmed input, cut by at most one of the three prefixes.
\<close>

definition jid_target :: "string \<Rightarrow> string" where
  "jid_target raw =
     (let trimmed = js_trim raw;
          lowered = toLowerCase trimmed;
          target = trimmed;
          target = (if startsWith lowered ''xmpp:'' then js_trim (drop 5 target) else target);
          target = (if startsWith lowered ''room:'' then js_trim (drop 5 target) else target);
          target = (if startsWith lowered ''user:'' then js_trim (drop 5 target) else target)
      in target)"

text \<open>The local part of the JID parsed from that target, empty when there is none.\<close>

definition local_part_of :: "string \<Rightarrow> string" where
  "local_part_of raw = (case parseJid (jid_target raw) of None \<Rightarrow> [] | Some j \<Rightarrow> jlocal j)"









section \<open>Room match and group access gate\<close>


lemma map_of_Some_key: "map_of xs k = Some v \<Longrightarrow> k \<in> fst ` set xs"
  by (force dest: map_of_SomeD)




lemma rooms_get_inherited:
  "key \<in> set object_prototype_members \<Longrightarrow> rooms_get rms key \<noteq> None"
  by (simp add: rooms_get_def split: option.splits)



lemma roomMatch_inherited:
  "t \<in> set object_prototype_members \<Longrightarrow> allowed (resolveXmppRoomMatch rms t)"
  using rooms_get_inherited[of t rms]
  by (auto simp: resolveXmppRoomMatch_def Let_def split: option.splits)







section \<open>The inbound target\<close>

lemma split_on_not_Nil: "split_on sep s \<noteq> []"
  by (induction s) (auto split: list.splits)

lemma split_on_hd:
  "(case split_on sep s of [] \<Rightarrow> [] | r # _ \<Rightarrow> r) = takeWhile (\<lambda>c. c \<noteq> sep) s"
  by (induction s) (auto split: list.splits)

lemma split_on_no_sep: "sep \<notin> set s \<Longrightarrow> split_on sep s = [s]"
  by (induction s) (auto split: list.splits)

lemma split_on_append:
  "sep \<notin> set r \<Longrightarrow> split_on sep (r @ sep # rest) = r # split_on sep rest"
  by (induction r) (auto split: list.splits)

lemma at_index_1_split:
  "sep \<notin> set r \<Longrightarrow>
     at_index (split_on sep (r @ sep # rest)) 1 = Some (takeWhile (\<lambda>c. c \<noteq> sep) rest)"
  using split_on_hd[of sep rest] split_on_not_Nil[of sep rest]
  by (cases "split_on sep rest") (auto simp: split_on_append at_index_def)

lemma takeWhile_before:
  "sep \<notin> set r \<Longrightarrow> takeWhile (\<lambda>c. c \<noteq> sep) (r @ sep # rest) = r"
  by (induction r) auto

lemma group_target_fields:
  "resolveXmppInboundTarget frm ''groupchat'' =
     \<lparr>tIsGroup = True, tTarget = takeWhile (\<lambda>c. c \<noteq> CHR ''/'') frm, tSenderJid = frm,
      tSenderBareJid = takeWhile (\<lambda>c. c \<noteq> CHR ''/'') frm,
      tSenderNickname = at_index (split_on CHR ''/'' frm) 1, tSenderResource = None\<rparr>"
  by (simp add: resolveXmppInboundTarget_def Let_def split_on_hd)

text \<open>
  Claim C4, as stated, fails: a groupchat stanza sent by the room itself (its \<^verbatim>\<open>from\<close> is
  the bare room JID) yields a group message with a room JID as target and no nickname,
  and that message is handed to the pipeline.
\<close>

theorem C4_counterexample:
  "tIsGroup (resolveXmppInboundTarget ''room@conference.example'' ''groupchat'')
   \<and> tTarget (resolveXmppInboundTarget ''room@conference.example'' ''groupchat'')
       = ''room@conference.example''
   \<and> isRoomJid ''room@conference.example''
   \<and> tSenderNickname (resolveXmppInboundTarget ''room@conference.example'' ''groupchat'') = None
   \<and> monitor_onMessage True False 0 ''id-1'' (scenario_account allowlist_no_rooms)
         \<lparr>evFrom = ''room@conference.example'', evTo = ''agent@localhost'',
          evBody = ''new subject'', evType = ''groupchat'', evId = None, evDelay = None\<rparr>
       = [RecordInboundActivity ''default'' 0,
          CallHandleXmppInbound
            \<lparr>messageId = ''id-1'', target = ''room@conference.example'',
             senderJid = ''room@conference.example'',
             senderBareJid = ''room@conference.example'', senderResource = None,
             senderNickname = None, text_body = ''new subject'', timestamp = 0,
             isGroup = True, stanzaId = None\<rparr>]"
  by code_simp

text \<open>
  Claim C4, amended. A message is a group message iff the stanza's type is groupchat,
  and its sender JID is the stanza's \<^verbatim>\<open>from\<close>. A direct message has the sender's bare JID
  as target. A group message has as target the part of \<^verbatim>\<open>from\<close> before the first slash;
  it has a room JID as target, a nickname and the sender JID \<^verbatim>\<open>target/nickname\<close> exactly
  when \<^verbatim>\<open>from\<close> is \<^verbatim>\<open>room/nick\<close> with a single slash and \<^verbatim>\<open>room\<close> a room JID. The message
  handed to the pipeline or to a custom handler carries these fields.
\<close>

theorem C4_inbound_target_invariant:
  fixes frm kind
  defines "t \<equiv> resolveXmppInboundTarget frm kind"
  shows "tIsGroup t = (kind = ''groupchat'')
       \<and> tSenderJid t = frm
       \<and> (\<not> tIsGroup t \<longrightarrow>
            tTarget t = tSenderBareJid t \<and> tTarget t = normalizeXmppBareJid frm)
       \<and> (tIsGroup t \<longrightarrow>
            tTarget t = takeWhile (\<lambda>c. c \<noteq> CHR ''/'') frm
            \<and> ((isRoomJid (tTarget t)
                 \<and> (\<exists>n. tSenderNickname t = Some n \<and> tSenderJid t = tTarget t @ ''/'' @ n))
                = (\<exists>r n. frm = r @ ''/'' @ n \<and> CHR ''/'' \<notin> set r \<and> CHR ''/'' \<notin> set n
                         \<and> isRoomJid r)))
       \<and> (CallHandleXmppInbound m \<in> set (monitor_onMessage clientSet custom now freshId account e)
           \<or> CallOnMessage m \<in> set (monitor_onMessage clientSet custom now freshId account e) \<longrightarrow>
            isGroup m = tIsGroup (resolveXmppInboundTarget (evFrom e) (evType e))
            \<and> target m = tTarget (resolveXmppInboundTarget (evFrom e) (evType e))
            \<and> senderJid m = tSenderJid (resolveXmppInboundTarget (evFrom e) (evType e))
            \<and> senderBareJid m = tSenderBareJid (resolveXmppInboundTarget (evFrom e) (evType e))
            \<and> senderNickname m
                = tSenderNickname (resolveXmppInboundTarget (evFrom e) (evType e)))"
proof -
  have g: "tIsGroup t = (kind = ''groupchat'')"
    by (simp add: t_def resolveXmppInboundTarget_def Let_def)
  have j: "tSenderJid t = frm" by (simp add: t_def resolveXmppInboundTarget_def Let_def)
  have d: "\<not> tIsGroup t \<longrightarrow> tTarget t = tSenderBareJid t \<and> tTarget t = normalizeXmppBareJid frm"
    by (simp add: t_def resolveXmppInboundTarget_def Let_def)
  have r: "tIsGroup t \<longrightarrow>
            tTarget t = takeWhile (\<lambda>c. c \<noteq> CHR ''/'') frm
            \<and> ((isRoomJid (tTarget t)
                 \<and> (\<exists>n. tSenderNickname t = Some n \<and> tSenderJid t = tTarget t @ ''/'' @ n))
                = (\<exists>r n. frm = r @ ''/'' @ n \<and> CHR ''/'' \<notin> set r \<and> CHR ''/'' \<notin> set n
                         \<and> isRoomJid r))"
  proof
    assume "tIsGroup t"
    with g have ty: "kind = ''groupchat''" by simp
    let ?r = "takeWhile (\<lambda>c. c \<noteq> CHR ''/'') frm"
    have tf: "t = \<lparr>tIsGroup = True, tTarget = ?r, tSenderJid = frm, tSenderBareJid = ?r,
                   tSenderNickname = at_index (split_on CHR ''/'' frm) 1,
                   tSenderResource = None\<rparr>"
      unfolding t_def ty by (rule group_target_fields)
    have tt: "tTarget t = ?r" by (simp add: tf)
    have "(isRoomJid ?r \<and> (\<exists>n. at_index (split_on CHR ''/'' frm) 1 = Some n
                                  \<and> frm = ?r @ ''/'' @ n))
          = (\<exists>r n. frm = r @ ''/'' @ n \<and> CHR ''/'' \<notin> set r \<and> CHR ''/'' \<notin> set n
                   \<and> isRoomJid r)"
    proof
      assume "isRoomJid ?r \<and> (\<exists>n. at_index (split_on CHR ''/'' frm) 1 = Some n
                                  \<and> frm = ?r @ ''/'' @ n)"
      then obtain n where room: "isRoomJid ?r"
        and nick: "at_index (split_on CHR ''/'' frm) 1 = Some n" and frm: "frm = ?r @ ''/'' @ n"
        by blast
      have nr: "CHR ''/'' \<notin> set ?r" by (auto dest: set_takeWhileD)
      from frm have "at_index (split_on CHR ''/'' frm) 1
                       = at_index (split_on CHR ''/'' (?r @ CHR ''/'' # n)) 1"
        by simp
      also have "\<dots> = Some (takeWhile (\<lambda>c. c \<noteq> CHR ''/'') n)"
        using nr by (rule at_index_1_split)
      finally have "takeWhile (\<lambda>c. c \<noteq> CHR ''/'') n = n" using nick by simp
      then have "CHR ''/'' \<notin> set n" by (metis (mono_tags, lifting) set_takeWhileD)
      with room nr frm show "\<exists>r n. frm = r @ ''/'' @ n \<and> CHR ''/'' \<notin> set r
                                  \<and> CHR ''/'' \<notin> set n \<and> isRoomJid r"
        by blast
    next
      assume "\<exists>r n. frm = r @ ''/'' @ n \<and> CHR ''/'' \<notin> set r \<and> CHR ''/'' \<notin> set n
                    \<and> isRoomJid r"
      then obtain r n where frm: "frm = r @ ''/'' @ n" and nr: "CHR ''/'' \<notin> set r"
        and nn: "CHR ''/'' \<notin> set n" and room: "isRoomJid r" by blast
      have tr: "?r = r" using frm nr by (simp add: takeWhile_before)
      have "at_index (split_on CHR ''/'' frm) 1 = Some (takeWhile (\<lambda>c. c \<noteq> CHR ''/'') n)"
        using at_index_1_split[OF nr, of n] frm by simp
      also have "takeWhile (\<lambda>c. c \<noteq> CHR ''/'') n = n" using nn by auto
      finally have "at_index (split_on CHR ''/'' frm) 1 = Some n" .
      with tr room frm show "isRoomJid ?r \<and> (\<exists>n. at_index (split_on CHR ''/'' frm) 1 = Some n
                                  \<and> frm = ?r @ ''/'' @ n)"
        by simp
    qed
    then show "tTarget t = takeWhile (\<lambda>c. c \<noteq> CHR ''/'') frm
            \<and> ((isRoomJid (tTarget t)
                 \<and> (\<exists>n. tSenderNickname t = Some n \<and> tSenderJid t = tTarget t @ ''/'' @ n))
                = (\<exists>r n. frm = r @ ''/'' @ n \<and> CHR ''/'' \<notin> set r \<and> CHR ''/'' \<notin> set n
                         \<and> isRoomJid r))"
      by (simp add: tf)
  qed
  have m: "CallHandleXmppInbound m \<in> set (monitor_onMessage clientSet custom now freshId account e)
           \<or> CallOnMessage m \<in> set (monitor_onMessage clientSet custom now freshId account e) \<longrightarrow>
            isGroup m = tIsGroup (resolveXmppInboundTarget (evFrom e) (evType e))
            \<and> target m = tTarget (resolveXmppInboundTarget (evFrom e) (evType e))
            \<and> senderJid m = tSenderJid (resolveXmppInboundTarget (evFrom e) (evType e))
            \<and> senderBareJid m = tSenderBareJid (resolveXmppInboundTarget (evFrom e) (evType e))
            \<and> senderNickname m
                = tSenderNickname (resolveXmppInboundTarget (evFrom e) (evType e))"
    by (auto simp: monitor_onMessage_def Let_def split: if_splits)
  from g j d r m show ?thesis by blast
qed

text \<open>
  Claim C4 on a stanza from \<^verbatim>\<open>room@conference.example/alice\<close>, with a nickname cut at its
  slash, a direct message, and the message built for the pipeline.
\<close>

theorem C4_inbound_target_invariant_witness:
  "tIsGroup (resolveXmppInboundTarget ''room@conference.example/alice'' ''groupchat'')
   \<and> CHR ''/'' \<notin> set ''room@conference.example'' \<and> CHR ''/'' \<notin> set ''alice''
   \<and> isRoomJid ''room@conference.example''
   \<and> resolveXmppInboundTarget ''room@conference.example/alice'' ''groupchat''
       = \<lparr>tIsGroup = True, tTarget = ''room@conference.example'',
          tSenderJid = ''room@conference.example/alice'',
          tSenderBareJid = ''room@conference.example'', tSenderNickname = Some ''alice'',
          tSenderResource = None\<rparr>
   \<and> resolveXmppInboundTarget ''room@conference.example/a/b'' ''groupchat''
       = \<lparr>tIsGroup = True, tTarget = ''room@conference.example'',
          tSenderJid = ''room@conference.example/a/b'',
          tSenderBareJid = ''room@conference.example'', tSenderNickname = Some ''a'',
          tSenderResource = None\<rparr>
   \<and> resolveXmppInboundTarget ''Alice@Example.com/phone'' ''chat''
       = \<lparr>tIsGroup = False, tTarget = ''alice@example.com'',
          tSenderJid = ''Alice@Example.com/phone'',
          tSenderBareJid = ''alice@example.com'', tSenderNickname = None,
          tSenderResource = Some ''phone''\<rparr>
   \<and> CallHandleXmppInbound
         \<lparr>messageId = ''m1'', target = ''room@conference.example'',
          senderJid = ''room@conference.example/alice'',
          senderBareJid = ''room@conference.example'', senderResource = None,
          senderNickname = Some ''alice'', text_body = ''hi'', timestamp = 0,
          isGroup = True, stanzaId = Some ''m1''\<rparr>
       \<in> set (monitor_onMessage True False 0 ''id-1'' (scenario_account allowlist_no_rooms)
                \<lparr>evFrom = ''room@conference.example/alice'', evTo = ''agent@localhost'',
                 evBody = ''hi'', evType = ''groupchat'', evId = Some ''m1'', evDelay = None\<rparr>)"
proof -
  let ?f = "''room@conference.example/alice''"
  let ?t = "resolveXmppInboundTarget ?f ''groupchat''"
  have a: "?f = ''room@conference.example'' @ ''/'' @ ''alice''" by simp
  have b: "CHR ''/'' \<notin> set ''room@conference.example''" by simp
  have c: "CHR ''/'' \<notin> set ''alice''" by simp
  have d: "isRoomJid ''room@conference.example''" by code_simp
  have f: "tSenderResource ?t = None" "tSenderBareJid ?t = ''room@conference.example''"
    by code_simp+
  note th = C4_inbound_target_invariant[of ?f "''groupchat''"]
  from th have g: "tIsGroup ?t" by blast
  from th g have tt: "tTarget ?t = takeWhile (\<lambda>c. c \<noteq> CHR ''/'') ?f" by blast
  have tw: "takeWhile (\<lambda>c. c \<noteq> CHR ''/'') ?f = ''room@conference.example''" by simp
  from th have sj: "tSenderJid ?t = ?f" by blast
  from a b c d have "\<exists>r n. ?f = r @ ''/'' @ n \<and> CHR ''/'' \<notin> set r \<and> CHR ''/'' \<notin> set n
                            \<and> isRoomJid r"
    by blast
  with th g obtain n where n: "tSenderNickname ?t = Some n" "tSenderJid ?t = tTarget ?t @ ''/'' @ n"
    by blast
  from n(2) have "n = ''alice''" unfolding sj tt tw by simp
  with n have nk: "tSenderNickname ?t = Some ''alice''" by simp
  have w1: "?t = \<lparr>tIsGroup = True, tTarget = ''room@conference.example'',
          tSenderJid = ''room@conference.example/alice'',
          tSenderBareJid = ''room@conference.example'', tSenderNickname = Some ''alice'',
          tSenderResource = None\<rparr>"
    using g tt tw sj nk f by (cases ?t) simp
  have w2: "resolveXmppInboundTarget ''room@conference.example/a/b'' ''groupchat''
       = \<lparr>tIsGroup = True, tTarget = ''room@conference.example'',
          tSenderJid = ''room@conference.example/a/b'',
          tSenderBareJid = ''room@conference.example'', tSenderNickname = Some ''a'',
          tSenderResource = None\<rparr>"
    by code_simp
  have w3: "resolveXmppInboundTarget ''Alice@Example.com/phone'' ''chat''
       = \<lparr>tIsGroup = False, tTarget = ''alice@example.com'',
          tSenderJid = ''Alice@Example.com/phone'',
          tSenderBareJid = ''alice@example.com'', tSenderNickname = None,
          tSenderResource = Some ''phone''\<rparr>"
    by code_simp
  have w4: "monitor_onMessage True False 0 ''id-1'' (scenario_account allowlist_no_rooms)
                \<lparr>evFrom = ''room@conference.example/alice'', evTo = ''agent@localhost'',
                 evBody = ''hi'', evType = ''groupchat'', evId = Some ''m1'', evDelay = None\<rparr>
     = [RecordInboundActivity ''default'' 0,
        CallHandleXmppInbound
         \<lparr>messageId = ''m1'', target = ''room@conference.example'',
          senderJid = ''room@conference.example/alice'',
          senderBareJid = ''room@conference.example'', senderResource = None,
          senderNickname = Some ''alice'', text_body = ''hi'', timestamp = 0,
          isGroup = True, stanzaId = Some ''m1''\<rparr>]"
    by code_simp
  from g b c d w1 w2 w3 show ?thesis unfolding w4 by simp
qed

section \<open>Characters, escaping and the local part\<close>

lemma of_char_lower:
  "(of_char (js_lower_char c) :: nat) =
     (if (65 \<le> (of_char c :: nat) \<and> (of_char c :: nat) \<le> 90)
         \<or> (192 \<le> (of_char c :: nat) \<and> (of_char c :: nat) \<le> 222 \<and> (of_char c :: nat) \<noteq> 215)
      then of_char c + 32 else of_char c)"
  by (auto simp: js_lower_char_def Let_def)

lemma char_eq_of_char: "(c = d) = ((of_char c :: nat) = of_char d)"
  by simp

lemma lower_eq_uncased: "\<not> js_cased x \<Longrightarrow> (js_lower_char c = x) = (c = x)"
  unfolding char_eq_of_char[of _ x] of_char_lower js_cased_def Let_def by auto

lemma lower_idem: "js_lower_char (js_lower_char c) = js_lower_char c"
  unfolding char_eq_of_char[of "js_lower_char (js_lower_char c)"] of_char_lower by auto

lemma toLowerCase_idem: "toLowerCase (toLowerCase s) = toLowerCase s"
  by (simp add: toLowerCase_def lower_idem)

lemma space_lower: "js_space (js_lower_char c) = js_space c"
  unfolding js_space_def Let_def of_char_lower by auto

lemma uncased_literals:
  "\<not> js_cased (CHR '' '')" "\<not> js_cased (CHR 0x22)" "\<not> js_cased (CHR ''&'')"
  "\<not> js_cased (CHR 0x27)" "\<not> js_cased (CHR ''/'')" "\<not> js_cased (CHR '':'')"
  "\<not> js_cased (CHR ''<'')" "\<not> js_cased (CHR ''>'')" "\<not> js_cased (CHR ''@'')"
  "\<not> js_cased backslash" "\<not> js_cased (CHR ''*'')"
  "\<not> js_cased (CHR ''0'')" "\<not> js_cased (CHR ''2'')" "\<not> js_cased (CHR ''3'')"
  "\<not> js_cased (CHR ''4'')" "\<not> js_cased (CHR ''5'')" "\<not> js_cased (CHR ''6'')"
  "\<not> js_cased (CHR ''7'')"
  by (simp_all add: js_cased_def backslash_def)

lemma special_lower: "jid_special (js_lower_char c) = jid_special c"
  by (simp add: jid_special_def lower_eq_uncased uncased_literals)

lemma special_uncased: "jid_special c \<Longrightarrow> \<not> js_cased c"
  by (auto simp: jid_special_def uncased_literals)

lemma replace_char_simps:
  "replace_char c rep [] = []"
  "replace_char c rep (x # xs) = (if x = c then rep else [x]) @ replace_char c rep xs"
  "replace_char c rep (xs @ ys) = replace_char c rep xs @ replace_char c rep ys"
  by (simp_all add: replace_char_def)

lemma escape_fold:
  "foldl (\<lambda>acc cr. replace_char (fst cr) (snd cr) acc) t escape_table
     = concat (map escape_char t)"
  by (induction t)
     (simp_all add: escape_table_def replace_char_simps escape_char_def backslash_def)

lemma jid_escape_chars: "jid_escape l = concat (map escape_char (js_trim l))"
  by (simp add: jid_escape_def escape_fold)

lemma good_escape_codes: "\<forall>ab \<in> set escape_codes. good_code ab"
  by (simp add: escape_codes_def good_code_def backslash_def js_cased_def js_lower_char_def)

lemma remove_seq_skip: "c \<noteq> backslash \<Longrightarrow> remove_seq a b (c # cs) = c # remove_seq a b cs"
  by (cases cs; cases "tl cs"; auto)

lemma escape_char_special:
  "jid_special c \<Longrightarrow> \<exists>a b. escape_char c = [backslash, a, b] \<and> (a, b) \<in> set escape_codes"
  unfolding jid_special_def
  by (elim disjE) (simp_all add: escape_char_def escape_table_def escape_codes_def backslash_def)

lemma escape_char_plain: "\<not> jid_special c \<Longrightarrow> escape_char c = [c]"
  by (simp add: jid_special_def escape_char_def escape_table_def)

lemma well_escaped_escape_char:
  "well_escaped escape_codes (escape_char c @ s) = well_escaped escape_codes s"
proof (cases "jid_special c")
  case True
  from escape_char_special[OF this] obtain a b
    where "escape_char c = [backslash, a, b]" "(a, b) \<in> set escape_codes" by blast
  then show ?thesis by simp
next
  case False
  then have "c \<noteq> backslash" by (auto simp: jid_special_def)
  with False show ?thesis by (simp add: escape_char_plain)
qed

lemma well_escaped_escape: "well_escaped escape_codes (concat (map escape_char s))"
  by (induction s) (simp_all add: well_escaped_escape_char)

lemma well_escaped_lower:
  "\<forall>ab \<in> set cs. good_code ab \<Longrightarrow> well_escaped cs s \<Longrightarrow> well_escaped cs (map js_lower_char s)"
proof (induction cs s rule: well_escaped.induct)
  case (1 cs)
  then show ?case by simp
next
  case (2 cs c s)
  have bs: "\<And>d. (js_lower_char d = backslash) = (d = backslash)"
    by (rule lower_eq_uncased) (rule uncased_literals)
  show ?case
  proof (cases "c = backslash")
    case True
    with "2.prems"(2) obtain a b rest where s: "s = a # b # rest" and ab: "(a, b) \<in> set cs"
      and w: "well_escaped cs rest"
      by (auto split: list.splits)
    from ab "2.prems"(1) have g: "good_code (a, b)" by blast
    then have "js_lower_char a = a" "js_lower_char b = b"
      by (auto simp: good_code_def lower_eq_uncased)
    moreover have "well_escaped cs (map js_lower_char rest)"
      using "2.IH"(1)[OF True s] "2.prems"(1) w by simp
    ultimately show ?thesis using True s ab by (simp add: bs)
  next
    case False
    then have "well_escaped cs (map js_lower_char s)"
      using "2.IH"(2) "2.prems" by simp
    with False "2.prems"(2) show ?thesis by (simp add: bs special_lower)
  qed
qed

lemma well_escaped_remove:
  "\<forall>ab \<in> set cs. good_code ab \<Longrightarrow> well_escaped cs s
     \<Longrightarrow> well_escaped (removeAll (a, b) cs) (remove_seq a b s)"
proof (induction cs s rule: well_escaped.induct)
  case (1 cs)
  then show ?case by simp
next
  case (2 cs c s)
  show ?case
  proof (cases "c = backslash")
    case True
    with "2.prems"(2) obtain x y rest where s: "s = x # y # rest" and xy: "(x, y) \<in> set cs"
      and w: "well_escaped cs rest"
      by (auto split: list.splits)
    from xy "2.prems"(1) have g: "x \<noteq> backslash" "y \<noteq> backslash"
      by (auto simp: good_code_def)
    have ih: "well_escaped (removeAll (a, b) cs) (remove_seq a b rest)"
      using "2.IH"(1)[OF True s] "2.prems"(1) w by simp
    show ?thesis
    proof (cases "x = a \<and> y = b")
      case T2: True
      with True s ih show ?thesis by simp
    next
      case F2: False
      then have "remove_seq a b (c # s) = c # x # y # remove_seq a b rest"
        using True s g by (auto simp: remove_seq_skip)
      with True xy F2 ih show ?thesis by auto
    qed
  next
    case False
    then have "well_escaped (removeAll (a, b) cs) (remove_seq a b s)"
      using "2.IH"(2) "2.prems" by simp
    with False "2.prems"(2) show ?thesis by (simp add: remove_seq_skip)
  qed
qed

lemma well_escaped_fold:
  "\<forall>ab \<in> set cs. good_code ab \<Longrightarrow> well_escaped cs s
     \<Longrightarrow> well_escaped (fold removeAll ks cs)
           (foldl (\<lambda>acc ab. remove_seq (fst ab) (snd ab) acc) s ks)"
proof (induction ks arbitrary: cs s)
  case Nil
  then show ?case by simp
next
  case (Cons k ks)
  have "well_escaped (removeAll k cs) (remove_seq (fst k) (snd k) s)"
    using well_escaped_remove[OF Cons.prems, of "fst k" "snd k"] by simp
  moreover have "\<forall>ab \<in> set (removeAll k cs). good_code ab" using Cons.prems(1) by simp
  ultimately show ?case using Cons.IH by simp
qed

lemma well_escaped_none: "well_escaped [] s \<Longrightarrow> \<not> list_ex jid_special s"
proof (induction s)
  case Nil
  then show ?case by simp
next
  case (Cons c s)
  show ?case
  proof (cases "c = backslash")
    case True
    with Cons.prems have False by (cases s; cases "tl s"; simp)
    then show ?thesis ..
  next
    case False
    with Cons show ?thesis by simp
  qed
qed

lemma well_escaped_not_detect:
  assumes "well_escaped escape_codes s" shows "\<not> jid_detect s"
proof -
  have "fold removeAll escape_codes escape_codes = []"
    by (simp add: escape_codes_def)
  with well_escaped_fold[OF good_escape_codes assms, of escape_codes]
  have "well_escaped [] (strip_sequences s)" by (simp add: strip_sequences_def)
  then show ?thesis by (simp add: jid_detect_def well_escaped_none)
qed

lemma not_detect_lower_escape: "\<not> jid_detect (toLowerCase (jid_escape l))"
  unfolding toLowerCase_def jid_escape_chars
  by (intro well_escaped_not_detect well_escaped_lower good_escape_codes well_escaped_escape)

lemma has_triple_Cons: "has_triple x y s \<Longrightarrow> has_triple x y (c # s)"
  by (cases s; cases "tl s"; cases "tl (tl s)"; simp)

lemma has_triple_skip: "c \<noteq> backslash \<Longrightarrow> has_triple x y (c # s) = has_triple x y s"
  by (cases s; cases "tl s"; simp)

lemma has_triple_backslash: "has_triple x y s \<Longrightarrow> backslash \<in> set s"
  by (induction x y s rule: has_triple.induct) auto

lemma has_triple_persist:
  assumes "x \<noteq> backslash" "y \<noteq> backslash" "a \<noteq> backslash" "b \<noteq> backslash"
    and "(x, y) \<noteq> (a, b)" and "has_triple x y s"
  shows "has_triple x y (remove_seq a b s)"
  using assms
proof (induction a b s rule: remove_seq.induct)
  case (1 a b c1 c2 c3 cs)
  show ?case
  proof (cases "c1 = backslash \<and> c2 = a \<and> c3 = b")
    case True
    with "1.prems" have "has_triple x y (c2 # c3 # cs)" by auto
    with True "1.prems" have "has_triple x y cs" by (simp add: has_triple_skip)
    with "1.IH"(1)[OF True] "1.prems" have "has_triple x y (remove_seq a b cs)" by simp
    with True show ?thesis by simp
  next
    case False
    show ?thesis
    proof (cases "c1 = backslash \<and> c2 = x \<and> c3 = y")
      case T2: True
      with "1.prems" have "remove_seq a b (c2 # c3 # cs) = x # y # remove_seq a b cs"
        by (simp add: remove_seq_skip)
      moreover have "remove_seq a b (c1 # c2 # c3 # cs) = c1 # remove_seq a b (c2 # c3 # cs)"
        using False by auto
      ultimately show ?thesis using T2 by simp
    next
      case F2: False
      with "1.prems" have "has_triple x y (c2 # c3 # cs)" by auto
      with "1.IH"(2)[OF False] "1.prems"
      have "has_triple x y (remove_seq a b (c2 # c3 # cs))" by simp
      then have "has_triple x y (c1 # remove_seq a b (c2 # c3 # cs))" by (rule has_triple_Cons)
      moreover have "remove_seq a b (c1 # c2 # c3 # cs) = c1 # remove_seq a b (c2 # c3 # cs)"
        using False by auto
      ultimately show ?thesis by simp
    qed
  qed
qed simp_all

lemma has_triple_persist_fold:
  "has_triple x y s \<Longrightarrow> x \<noteq> backslash \<Longrightarrow> y \<noteq> backslash
   \<Longrightarrow> \<forall>ab \<in> set ks. fst ab \<noteq> backslash \<and> snd ab \<noteq> backslash \<and> ab \<noteq> (x, y)
   \<Longrightarrow> has_triple x y (foldl (\<lambda>acc ab. remove_seq (fst ab) (snd ab) acc) s ks)"
proof (induction ks arbitrary: s)
  case Nil
  then show ?case by simp
next
  case (Cons k ks)
  have "has_triple x y (remove_seq (fst k) (snd k) s)"
    using Cons.prems by (intro has_triple_persist) (auto simp: prod_eq_iff)
  with Cons.IH Cons.prems show ?case by simp
qed

lemma remove_seq_lower:
  assumes "\<And>c. (js_lower_char c = a) = (c = a)" and "js_lower_char b = b"
    and "\<And>y. js_lower_char y = b \<Longrightarrow> y \<noteq> b \<Longrightarrow> \<not> has_triple a y s"
  shows "remove_seq a b (map js_lower_char s) = map js_lower_char (remove_seq a b s)"
  using assms
proof (induction a b s rule: remove_seq.induct)
  case (1 a b c1 c2 c3 cs)
  have bs: "(js_lower_char c1 = backslash) = (c1 = backslash)"
    by (rule lower_eq_uncased) (rule uncased_literals)
  have nm2: "\<And>y. js_lower_char y = b \<Longrightarrow> y \<noteq> b \<Longrightarrow> \<not> has_triple a y (c2 # c3 # cs)"
    using "1.prems"(3) has_triple_Cons by blast
  have nm3: "\<And>y. js_lower_char y = b \<Longrightarrow> y \<noteq> b \<Longrightarrow> \<not> has_triple a y cs"
    using nm2 has_triple_Cons by blast
  have c3: "(js_lower_char c3 = b) = (c3 = b)" if "c1 = backslash" "c2 = a"
  proof
    assume l: "js_lower_char c3 = b"
    show "c3 = b"
    proof (rule ccontr)
      assume "c3 \<noteq> b"
      from "1.prems"(3)[OF l this] that show False by simp
    qed
  next
    assume "c3 = b"
    with "1.prems"(2) show "js_lower_char c3 = b" by simp
  qed
  show ?case
  proof (cases "c1 = backslash \<and> c2 = a \<and> c3 = b")
    case True
    have "remove_seq a b (map js_lower_char cs) = map js_lower_char (remove_seq a b cs)"
      using "1.IH"(1)[OF True "1.prems"(1,2)] nm3 by blast
    moreover have "js_lower_char c1 = backslash" "js_lower_char c2 = a" "js_lower_char c3 = b"
      using True bs "1.prems"(1,2) by auto
    ultimately show ?thesis using True by simp
  next
    case False
    then have nl: "\<not> (js_lower_char c1 = backslash \<and> js_lower_char c2 = a \<and> js_lower_char c3 = b)"
      using bs "1.prems"(1) c3 by blast
    have "remove_seq a b (map js_lower_char (c2 # c3 # cs))
            = map js_lower_char (remove_seq a b (c2 # c3 # cs))"
      using "1.IH"(2)[OF False "1.prems"(1,2)] nm2 by blast
    moreover have "remove_seq a b (c1 # c2 # c3 # cs) = c1 # remove_seq a b (c2 # c3 # cs)"
      using False by auto
    moreover have "remove_seq a b (map js_lower_char (c1 # c2 # c3 # cs))
            = js_lower_char c1 # remove_seq a b (map js_lower_char (c2 # c3 # cs))"
      using nl by auto
    ultimately show ?thesis by simp
  qed
qed simp_all

lemma list_ex_special_lower:
  "list_ex jid_special (map js_lower_char s) = list_ex jid_special s"
  by (induction s) (simp_all add: special_lower)

lemma strip_lower_chain:
  "\<forall>ab \<in> set ks. good_code ab
   \<Longrightarrow> \<not> list_ex jid_special (foldl (\<lambda>acc ab. remove_seq (fst ab) (snd ab) acc) s ks)
   \<Longrightarrow> foldl (\<lambda>acc ab. remove_seq (fst ab) (snd ab) acc) (map js_lower_char s) ks
       = map js_lower_char (foldl (\<lambda>acc ab. remove_seq (fst ab) (snd ab) acc) s ks)"
proof (induction ks arbitrary: s)
  case Nil
  then show ?case by simp
next
  case (Cons k ks)
  obtain a b where k: "k = (a, b)" by (cases k)
  from Cons.prems(1) k have g: "a \<noteq> backslash" "b \<noteq> backslash" "\<not> js_cased a"
    "js_lower_char b = b"
    by (auto simp: good_code_def)
  have nm: "\<not> has_triple a y s" if l: "js_lower_char y = b" and ne: "y \<noteq> b" for y
  proof
    assume h: "has_triple a y s"
    have bs: "js_lower_char backslash = backslash"
      using lower_eq_uncased[OF uncased_literals(10), of backslash] by simp
    have yb: "y \<noteq> backslash" using l g(2) bs by auto
    have "\<forall>ab \<in> set (k # ks). fst ab \<noteq> backslash \<and> snd ab \<noteq> backslash \<and> ab \<noteq> (a, y)"
    proof
      fix ab assume "ab \<in> set (k # ks)"
      with Cons.prems(1) have gc: "good_code ab" by blast
      have "ab \<noteq> (a, y)"
      proof
        assume "ab = (a, y)"
        with gc have "js_lower_char y = y" by (simp add: good_code_def)
        with l ne show False by simp
      qed
      with gc show "fst ab \<noteq> backslash \<and> snd ab \<noteq> backslash \<and> ab \<noteq> (a, y)"
        by (simp add: good_code_def)
    qed
    from has_triple_persist_fold[OF h g(1) yb this]
    have "backslash \<in> set (foldl (\<lambda>acc ab. remove_seq (fst ab) (snd ab) acc) s (k # ks))"
      by (rule has_triple_backslash)
    then have "list_ex jid_special (foldl (\<lambda>acc ab. remove_seq (fst ab) (snd ab) acc) s (k # ks))"
      by (auto simp: list_ex_iff jid_special_def)
    with Cons.prems(2) show False by simp
  qed
  have "remove_seq a b (map js_lower_char s) = map js_lower_char (remove_seq a b s)"
    using lower_eq_uncased[OF g(3)] g(4) nm by (rule remove_seq_lower)
  moreover have "foldl (\<lambda>acc ab. remove_seq (fst ab) (snd ab) acc)
                   (map js_lower_char (remove_seq a b s)) ks
       = map js_lower_char (foldl (\<lambda>acc ab. remove_seq (fst ab) (snd ab) acc) (remove_seq a b s) ks)"
    using Cons.IH[of "remove_seq a b s"] Cons.prems k by simp
  ultimately show ?case using k by simp
qed

lemma not_detect_lower: "\<not> jid_detect l \<Longrightarrow> \<not> jid_detect (toLowerCase l)"
proof (cases "l = []")
  case True
  then show ?thesis by (simp add: jid_detect_def toLowerCase_def)
next
  case False
  assume "\<not> jid_detect l"
  with False have n: "\<not> list_ex jid_special (strip_sequences l)" by (simp add: jid_detect_def)
  then have "strip_sequences (map js_lower_char l) = map js_lower_char (strip_sequences l)"
    unfolding strip_sequences_def by (intro strip_lower_chain good_escape_codes)
  with n show ?thesis
    by (simp add: jid_detect_def toLowerCase_def list_ex_special_lower)
qed

lemma setLocal_idem: "setLocal (setLocal l) = setLocal l"
proof (cases "jid_detect l")
  case True
  then have "setLocal l = toLowerCase (jid_escape l)" by (simp add: setLocal_def)
  then show ?thesis
    using not_detect_lower_escape[of l] by (simp add: setLocal_def toLowerCase_idem)
next
  case False
  then have "setLocal l = toLowerCase l" by (simp add: setLocal_def)
  then show ?thesis
    using not_detect_lower[OF False] by (simp add: setLocal_def toLowerCase_idem)
qed

section \<open>Normalising a JID\<close>

lemma normalizeXmppJid_target:
  "normalizeXmppJid raw =
     (if js_trim raw = [] \<or> jid_target raw = [] \<or> \<not> looksLikeXmppJid (jid_target raw) then None
      else bare_string (jid_target raw))"
  by (simp add: normalizeXmppJid_def jid_target_def Let_def)

lemma dropWhile_hd_id: "s = [] \<or> \<not> P (hd s) \<Longrightarrow> dropWhile P s = s"
  by (cases s) auto

lemma trim_fixed:
  assumes "s = [] \<or> (\<not> js_space (hd s) \<and> \<not> js_space (last s))"
  shows "js_trim s = s"
proof -
  have a: "dropWhile js_space s = s" using assms by (intro dropWhile_hd_id) auto
  have "rev s = [] \<or> \<not> js_space (hd (rev s))" using assms by (auto simp: hd_rev)
  then have "dropWhile js_space (rev s) = rev s" by (rule dropWhile_hd_id)
  with a show ?thesis by (simp add: js_trim_def)
qed

lemma trim_ends:
  assumes "js_trim s \<noteq> []"
  shows "\<not> js_space (hd (js_trim s)) \<and> \<not> js_space (last (js_trim s))"
proof -
  let ?u = "dropWhile js_space s"
  let ?w = "dropWhile js_space (rev ?u)"
  have w: "js_trim s = rev ?w" by (simp add: js_trim_def)
  with assms have wne: "?w \<noteq> []" by simp
  then have l: "\<not> js_space (hd ?w)" by (rule hd_dropWhile)
  have une: "?u \<noteq> []"
  proof
    assume a: "?u = []"
    have "?w = []" unfolding a by simp
    with wne show False by simp
  qed
  then have hu: "\<not> js_space (hd ?u)" by (rule hd_dropWhile)
  have "rev ?u = takeWhile js_space (rev ?u) @ ?w" by simp
  then have "?u = rev ?w @ rev (takeWhile js_space (rev ?u))"
    by (metis rev_append rev_rev_ident)
  with wne have "hd ?u = hd (rev ?w)" by (metis hd_append2 rev_is_Nil_conv)
  with hu l wne show ?thesis by (simp add: w last_rev)
qed

lemma js_trim_idem: "js_trim (js_trim s) = js_trim s"
  using trim_ends[of s] by (intro trim_fixed) blast

lemma trim_nospace: "list_all (\<lambda>c. \<not> js_space c) s \<Longrightarrow> js_trim s = s"
  using hd_in_set[of s] last_in_set[of s] by (intro trim_fixed) (auto simp: list_all_iff)

lemma set_js_trim: "set (js_trim s) \<subseteq> set s"
proof -
  have "set (js_trim s) = set (dropWhile js_space (rev (dropWhile js_space s)))"
    by (simp add: js_trim_def)
  also have "\<dots> \<subseteq> set (rev (dropWhile js_space s))" by (rule set_dropWhileD[THEN subsetI])
  also have "\<dots> \<subseteq> set s" by (auto dest: set_dropWhileD)
  finally show ?thesis .
qed

lemma jid_target_trimmed: "js_trim (jid_target raw) = jid_target raw"
  by (simp add: jid_target_def Let_def js_trim_idem)

lemma remove_seq_keeps:
  "c \<in> set s \<Longrightarrow> c \<noteq> backslash \<Longrightarrow> c \<noteq> a \<Longrightarrow> c \<noteq> b \<Longrightarrow> c \<in> set (remove_seq a b s)"
proof (induction a b s rule: remove_seq.induct)
  case (1 a b c1 c2 c3 cs)
  show ?case
  proof (cases "c1 = backslash \<and> c2 = a \<and> c3 = b")
    case True
    with "1.prems" have "c \<in> set cs" by auto
    with "1.IH"(1)[OF True] "1.prems" have "c \<in> set (remove_seq a b cs)" by simp
    with True show ?thesis by simp
  next
    case False
    have r: "remove_seq a b (c1 # c2 # c3 # cs) = c1 # remove_seq a b (c2 # c3 # cs)"
      using False by auto
    show ?thesis
    proof (cases "c = c1")
      case True
      then show ?thesis unfolding r by simp
    next
      case F2: False
      with "1.prems" have "c \<in> set (c2 # c3 # cs)" by auto
      with "1.IH"(2)[OF False] "1.prems" have "c \<in> set (remove_seq a b (c2 # c3 # cs))" by simp
      then show ?thesis unfolding r by simp
    qed
  qed
qed simp_all

lemma fold_remove_keeps:
  "c \<in> set s \<Longrightarrow> c \<noteq> backslash \<Longrightarrow> \<forall>ab \<in> set ks. c \<noteq> fst ab \<and> c \<noteq> snd ab
   \<Longrightarrow> c \<in> set (foldl (\<lambda>acc ab. remove_seq (fst ab) (snd ab) acc) s ks)"
proof (induction ks arbitrary: s)
  case Nil
  then show ?case by simp
next
  case (Cons k ks)
  then have "c \<in> set (remove_seq (fst k) (snd k) s)" by (intro remove_seq_keeps) auto
  with Cons show ?case by simp
qed

lemma codes_not_special:
  "\<forall>ab \<in> set escape_codes. \<not> jid_special (fst ab) \<and> \<not> jid_special (snd ab)"
  by (simp add: escape_codes_def jid_special_def backslash_def)

lemma not_detect_specials:
  assumes "\<not> jid_detect l" and "c \<in> set l" and "jid_special c"
  shows "c = backslash"
proof (rule ccontr)
  assume nb: "c \<noteq> backslash"
  have "\<forall>ab \<in> set escape_codes. c \<noteq> fst ab \<and> c \<noteq> snd ab"
    using codes_not_special assms(3) by blast
  with assms(2) nb have "c \<in> set (strip_sequences l)"
    unfolding strip_sequences_def by (intro fold_remove_keeps)
  with assms(3) have "list_ex jid_special (strip_sequences l)" by (auto simp: list_ex_iff)
  moreover from assms(2) have "l \<noteq> []" by auto
  ultimately show False using assms(1) by (simp add: jid_detect_def)
qed

lemma well_escaped_specials:
  "well_escaped cs s \<Longrightarrow> \<forall>ab \<in> set cs. \<not> jid_special (fst ab) \<and> \<not> jid_special (snd ab)
   \<Longrightarrow> c \<in> set s \<Longrightarrow> jid_special c \<Longrightarrow> c = backslash"
proof (induction cs s rule: well_escaped.induct)
  case (1 cs)
  then show ?case by simp
next
  case (2 cs d s)
  show ?case
  proof (cases "d = backslash")
    case True
    with "2.prems"(1) obtain x y rest where s: "s = x # y # rest" and xy: "(x, y) \<in> set cs"
      and w: "well_escaped cs rest"
      by (auto split: list.splits)
    from xy "2.prems"(2) have "\<not> jid_special x" "\<not> jid_special y" by auto
    with "2.prems"(3,4) True s have "c = backslash \<or> c \<in> set rest" by auto
    with "2.IH"(1)[OF True s refl w "2.prems"(2)] "2.prems"(4) show ?thesis by blast
  next
    case False
    with "2.prems"(1) have nd: "\<not> jid_special d" and w: "well_escaped cs s" by auto
    with "2.prems"(3,4) have "c \<in> set s" by auto
    with "2.IH"(2)[OF False w "2.prems"(2)] "2.prems"(4) show ?thesis by blast
  qed
qed

lemma lower_backslash: "js_lower_char backslash = backslash"
  using lower_eq_uncased[OF uncased_literals(10), of backslash] by simp

lemma setLocal_specials:
  assumes "c \<in> set (setLocal l)" and "jid_special c"
  shows "c = backslash"
proof (cases "jid_detect l")
  case True
  then have "setLocal l = map js_lower_char (concat (map escape_char (js_trim l)))"
    by (simp add: setLocal_def toLowerCase_def jid_escape_chars)
  moreover have "well_escaped escape_codes (map js_lower_char (concat (map escape_char (js_trim l))))"
    by (intro well_escaped_lower good_escape_codes well_escaped_escape)
  ultimately show ?thesis using well_escaped_specials[OF _ codes_not_special] assms by metis
next
  case False
  then have "setLocal l = map js_lower_char l" by (simp add: setLocal_def toLowerCase_def)
  with assms(1) obtain d where d: "d \<in> set l" "c = js_lower_char d" by auto
  with assms(2) have "jid_special d" by (simp add: special_lower)
  with False d have "d = backslash" by (intro not_detect_specials)
  with d show ?thesis by (simp add: lower_backslash)
qed

lemma escape_char_nospace: "\<not> js_space c \<Longrightarrow> list_all (\<lambda>x. \<not> js_space x) (escape_char c)"
proof (cases "jid_special c")
  case True
  from escape_char_special[OF this] obtain a b
    where e: "escape_char c = [backslash, a, b]" and ab: "(a, b) \<in> set escape_codes" by blast
  from ab have "\<not> js_space a \<and> \<not> js_space b"
    by (auto simp: escape_codes_def js_space_def)
  with e show ?thesis by (simp add: js_space_def backslash_def)
next
  case False
  assume "\<not> js_space c"
  with False show ?thesis by (simp add: escape_char_plain)
qed

lemma setLocal_nospace:
  assumes "list_all (\<lambda>x. \<not> js_space x) l"
  shows "list_all (\<lambda>x. \<not> js_space x) (setLocal l)"
proof (cases "jid_detect l")
  case True
  have "list_all (\<lambda>x. \<not> js_space x) (concat (map escape_char (js_trim l)))"
    using assms set_js_trim[of l] escape_char_nospace
    by (auto simp: list_all_iff)
  then show ?thesis
    using True by (simp add: setLocal_def toLowerCase_def jid_escape_chars list_all_iff space_lower)
next
  case False
  with assms show ?thesis
    by (simp add: setLocal_def toLowerCase_def list_all_iff space_lower)
qed

lemma setLocal_Nil: "setLocal [] = []"
  by (simp add: setLocal_def jid_detect_def toLowerCase_def)

lemma takeWhile_all: "c \<notin> set t \<Longrightarrow> takeWhile (\<lambda>x. x \<noteq> c) t = t"
  by (induction t) auto

lemma dropWhile_before:
  "sep \<notin> set r \<Longrightarrow> dropWhile (\<lambda>c. c \<noteq> sep) (r @ sep # rest) = sep # rest"
  by (induction r) auto

text \<open>The bare JID of a string, from its part before the first slash.\<close>

lemma parseJid_alt:
  "parseJid t =
     (let s1 = takeWhile (\<lambda>c. c \<noteq> CHR ''/'') t;
          l = (if CHR ''@'' \<in> set s1 then takeWhile (\<lambda>c. c \<noteq> CHR ''@'') s1 else []);
          d = (if CHR ''@'' \<in> set s1 then drop 1 (dropWhile (\<lambda>c. c \<noteq> CHR ''@'') s1) else s1);
          r = (if CHR ''/'' \<in> set t then drop 1 (dropWhile (\<lambda>c. c \<noteq> CHR ''/'') t) else [])
      in jid_new l d r)"
proof -
  have s1: "(if CHR ''/'' \<in> set t then takeWhile (\<lambda>c. c \<noteq> CHR ''/'') t else t)
              = takeWhile (\<lambda>c. c \<noteq> CHR ''/'') t"
    by (simp add: takeWhile_all)
  show ?thesis unfolding parseJid_def s1 Let_def by (rule refl)
qed

lemma bare_new:
  assumes "jid_new l d r = Some j"
  shows "jid_bare j = Some \<lparr>jlocal = setLocal l, jdomain = toLowerCase d, jresource = []\<rparr>"
proof -
  from assms have d: "d \<noteq> []"
    and j: "j = \<lparr>jlocal = setLocal l, jdomain = toLowerCase d, jresource = r\<rparr>"
    by (auto simp: jid_new_def split: if_splits)
  have ne: "toLowerCase d \<noteq> []" using d by (simp add: toLowerCase_def)
  show ?thesis
  proof (cases "r = []")
    case True
    with j show ?thesis by (simp add: jid_bare_def)
  next
    case False
    with j have "jid_bare j = jid_new (setLocal l) (toLowerCase d) []" by (simp add: jid_bare_def)
    also have "\<dots> = Some \<lparr>jlocal = setLocal l, jdomain = toLowerCase d, jresource = []\<rparr>"
      using ne by (simp add: jid_new_def setLocal_idem toLowerCase_idem)
    finally show ?thesis .
  qed
qed

lemma bare_string_alt:
  "bare_string t =
     (let s1 = takeWhile (\<lambda>c. c \<noteq> CHR ''/'') t;
          l = (if CHR ''@'' \<in> set s1 then takeWhile (\<lambda>c. c \<noteq> CHR ''@'') s1 else []);
          d = (if CHR ''@'' \<in> set s1 then drop 1 (dropWhile (\<lambda>c. c \<noteq> CHR ''@'') s1) else s1)
      in if d = [] then None
         else Some (jid_toString \<lparr>jlocal = setLocal l, jdomain = toLowerCase d, jresource = []\<rparr>))"
proof -
  define s1 where "s1 = takeWhile (\<lambda>c. c \<noteq> CHR ''/'') t"
  define l where "l = (if CHR ''@'' \<in> set s1 then takeWhile (\<lambda>c. c \<noteq> CHR ''@'') s1 else [])"
  define d where "d = (if CHR ''@'' \<in> set s1 then drop 1 (dropWhile (\<lambda>c. c \<noteq> CHR ''@'') s1) else s1)"
  define r where "r = (if CHR ''/'' \<in> set t then drop 1 (dropWhile (\<lambda>c. c \<noteq> CHR ''/'') t) else [])"
  have p: "parseJid t = jid_new l d r"
    unfolding parseJid_alt Let_def s1_def l_def d_def r_def by (rule refl)
  have "bare_string t =
          (if d = [] then None
           else Some (jid_toString \<lparr>jlocal = setLocal l, jdomain = toLowerCase d, jresource = []\<rparr>))"
  proof (cases "d = []")
    case True
    then show ?thesis by (simp add: bare_string_def p jid_new_def)
  next
    case False
    then obtain j where j: "jid_new l d r = Some j" by (simp add: jid_new_def)
    from bare_new[OF j] j False show ?thesis by (simp add: bare_string_def p)
  qed
  then show ?thesis unfolding Let_def s1_def l_def d_def by simp
qed

lemma parseJid_local:
  assumes "parseJid t = Some j"
  shows "jlocal j = setLocal (let s1 = takeWhile (\<lambda>c. c \<noteq> CHR ''/'') t
                          in if CHR ''@'' \<in> set s1 then takeWhile (\<lambda>c. c \<noteq> CHR ''@'') s1 else [])"
proof -
  define s1 where "s1 = takeWhile (\<lambda>c. c \<noteq> CHR ''/'') t"
  define l where "l = (if CHR ''@'' \<in> set s1 then takeWhile (\<lambda>c. c \<noteq> CHR ''@'') s1 else [])"
  define d where "d = (if CHR ''@'' \<in> set s1 then drop 1 (dropWhile (\<lambda>c. c \<noteq> CHR ''@'') s1) else s1)"
  define r where "r = (if CHR ''/'' \<in> set t then drop 1 (dropWhile (\<lambda>c. c \<noteq> CHR ''/'') t) else [])"
  have p: "parseJid t = jid_new l d r"
    unfolding parseJid_alt Let_def s1_def l_def d_def r_def by (rule refl)
  with assms have "jlocal j = setLocal l" by (auto simp: jid_new_def split: if_splits)
  then show ?thesis unfolding Let_def l_def s1_def by simp
qed

lemma not_startsWith_prefix:
  assumes "CHR ''@'' \<notin> set p" and "length p = 5" and "p ! 4 = CHR '':''" and "CHR '':'' \<notin> set L"
  shows "\<not> startsWith (L @ CHR ''@'' # D) p"
proof
  assume "startsWith (L @ CHR ''@'' # D) p"
  then have t: "take 5 (L @ CHR ''@'' # D) = p" using assms(2) by (simp add: startsWith_def)
  show False
  proof (cases "length L < 5")
    case True
    then have "take 5 (L @ CHR ''@'' # D) ! length L = CHR ''@''" by (simp add: nth_append)
    with t have "p ! length L = CHR ''@''" by simp
    moreover have "p ! length L \<in> set p" using True assms(2) by (intro nth_mem) simp
    ultimately show False using assms(1) by simp
  next
    case False
    then have "take 5 (L @ CHR ''@'' # D) ! 4 = L ! 4" by (simp add: nth_append)
    with t assms(3) have "L ! 4 = CHR '':''" by simp
    moreover have "L ! 4 \<in> set L" using False by (intro nth_mem) simp
    ultimately show False using assms(4) by simp
  qed
qed

lemma normalize_fixed:
  assumes L: "L \<noteq> []" "setLocal L = L" "\<forall>c \<in> set L. jid_special c \<longrightarrow> c = backslash"
             "list_all (\<lambda>c. \<not> js_space c) L" "toLowerCase L = L"
      and D: "D \<noteq> []" "toLowerCase D = D" "CHR ''/'' \<notin> set D" "list_all (\<lambda>c. \<not> js_space c) D"
  shows "normalizeXmppJid (L @ CHR ''@'' # D) = Some (L @ CHR ''@'' # D)"
proof -
  let ?v = "L @ CHR ''@'' # D"
  have at: "CHR ''@'' \<notin> set L" and sl: "CHR ''/'' \<notin> set L" and co: "CHR '':'' \<notin> set L"
    using L(3) by (auto simp: jid_special_def backslash_def)
  have ns: "list_all (\<lambda>c. \<not> js_space c) ?v"
    using L(4) D(4) by (simp add: js_space_def)
  have tr: "js_trim ?v = ?v" using ns by (rule trim_nospace)
  have "js_lower_char (CHR ''@'') = CHR ''@''"
    using lower_eq_uncased[OF uncased_literals(9), of "CHR ''@''"] by simp
  then have lo: "toLowerCase ?v = ?v"
    using L(5) D(2) by (simp add: toLowerCase_def)
  have np: "\<not> startsWith ?v ''xmpp:''" "\<not> startsWith ?v ''room:''" "\<not> startsWith ?v ''user:''"
    using co not_startsWith_prefix[of "''xmpp:''" L D] not_startsWith_prefix[of "''room:''" L D]
          not_startsWith_prefix[of "''user:''" L D]
    by simp_all
  have tg: "jid_target ?v = ?v"
    unfolding jid_target_def Let_def tr lo using np by simp
  have s1: "takeWhile (\<lambda>c. c \<noteq> CHR ''/'') ?v = ?v"
    using sl D(3) by (intro takeWhile_all) simp
  have l1: "takeWhile (\<lambda>c. c \<noteq> CHR ''@'') ?v = L" using at by (rule takeWhile_before)
  have d1: "drop 1 (dropWhile (\<lambda>c. c \<noteq> CHR ''@'') ?v) = D"
    using at by (simp add: dropWhile_before)
  have bs: "bare_string ?v = Some ?v"
    unfolding bare_string_alt Let_def s1 l1 d1
    using L(1,2) D(1,2) by (simp add: jid_toString_def)
  then have pj: "parseJid ?v \<noteq> None" by (auto simp: bare_string_def split: option.splits)
  obtain a L' where La: "L = a # L'" using L(1) by (cases L) auto
  have "butlast (tl ?v) = L' @ CHR ''@'' # butlast D"
    using D(1) by (simp add: La butlast_append)
  then have "CHR ''@'' \<in> set (butlast (tl ?v))" by simp
  with ns have pat: "XMPP_TARGET_PATTERN ?v" by (simp add: XMPP_TARGET_PATTERN_def)
  have ll: "looksLikeXmppJid ?v"
    unfolding looksLikeXmppJid_def Let_def tr using pat pj by (auto split: option.splits)
  show ?thesis
    unfolding normalizeXmppJid_target tg tr using ll bs by simp
qed

lemma set_jid_target: "set (jid_target x) \<subseteq> set x"
proof -
  have a: "set (js_trim x) \<subseteq> set x" by (rule set_js_trim)
  have "set (js_trim (drop 5 (js_trim x))) \<subseteq> set (drop 5 (js_trim x))" by (rule set_js_trim)
  also have "\<dots> \<subseteq> set (js_trim x)" by (rule set_drop_subset)
  finally have b: "set (js_trim (drop 5 (js_trim x))) \<subseteq> set x" using a by blast
  have "set (js_trim (drop 5 (js_trim (drop 5 (js_trim x))))) \<subseteq> set (js_trim (drop 5 (js_trim x)))"
    using set_js_trim set_drop_subset by (meson subset_trans)
  with b have c: "set (js_trim (drop 5 (js_trim (drop 5 (js_trim x))))) \<subseteq> set x" by blast
  have "set (js_trim (drop 5 (js_trim (drop 5 (js_trim (drop 5 (js_trim x))))))) 
           \<subseteq> set (js_trim (drop 5 (js_trim (drop 5 (js_trim x)))))"
    using set_js_trim set_drop_subset by (meson subset_trans)
  with c have d: "set (js_trim (drop 5 (js_trim (drop 5 (js_trim (drop 5 (js_trim x))))))) \<subseteq> set x"
    by blast
  show ?thesis unfolding jid_target_def Let_def using a b c d by (auto split: if_splits)
qed

lemma bare_string_None: "(bare_string t = None) = (parseJid t = None)"
proof (cases "parseJid t")
  case None
  then show ?thesis by (simp add: bare_string_def)
next
  case (Some j)
  then obtain l d r where "jid_new l d r = Some j" unfolding parseJid_alt Let_def by blast
  from bare_new[OF this] Some show ?thesis by (simp add: bare_string_def)
qed

text \<open>
  Claim C8, as stated, fails: \<^verbatim>\<open>example.org/alice@home\<close> is accepted and normalised to
  \<^verbatim>\<open>example.org\<close>, on which \<^verbatim>\<open>normalizeXmppJid\<close> returns none.
\<close>

theorem C8_counterexample:
  "normalizeXmppJid ''example.org/alice@home'' = Some ''example.org''
   \<and> normalizeXmppJid ''example.org'' = None"
  by code_simp

text \<open>
  Claim C8, amended. \<^verbatim>\<open>normalizeXmppJid\<close> never throws: it returns none exactly on an
  invalid input, which is one whose target (the trimmed input without its prefix) is
  empty, does not have the shape of a JID, or is refused by the JID library; a blank
  input is one such. For every input \<open>x\<close> with result \<open>v\<close>, normalising \<open>v\<close> gives \<open>v\<close>
  again when the JID in \<open>x\<close> has a local part.
\<close>

theorem C8_normalize_idempotent:
  "(normalizeXmppJid x = None)
     = (jid_target x = [] \<or> \<not> XMPP_TARGET_PATTERN (jid_target x)
        \<or> parseJid (jid_target x) = None)
   \<and> (js_trim x = [] \<longrightarrow> normalizeXmppJid x = None)
   \<and> (normalizeXmppJid x = Some v \<and> local_part_of x \<noteq> [] \<longrightarrow> normalizeXmppJid v = Some v)"
proof -
  have sw: "\<not> startsWith [] ''xmpp:''" "\<not> startsWith [] ''room:''" "\<not> startsWith [] ''user:''"
    by code_simp+
  have blank: "js_trim x = [] \<Longrightarrow> jid_target x = []"
    by (simp add: jid_target_def Let_def toLowerCase_def sw)
  have a: "(normalizeXmppJid x = None)
     = (jid_target x = [] \<or> \<not> XMPP_TARGET_PATTERN (jid_target x)
        \<or> parseJid (jid_target x) = None)"
  proof (cases "jid_target x = [] \<or> \<not> XMPP_TARGET_PATTERN (jid_target x)
                \<or> parseJid (jid_target x) = None")
    case True
    then have "jid_target x = [] \<or> \<not> looksLikeXmppJid (jid_target x)"
      by (auto simp: looksLikeXmppJid_def Let_def jid_target_trimmed)
    with True show ?thesis by (simp add: normalizeXmppJid_target)
  next
    case False
    then have l: "looksLikeXmppJid (jid_target x)"
      by (auto simp: looksLikeXmppJid_def Let_def jid_target_trimmed split: option.splits)
    from False blank have t: "js_trim x \<noteq> []" by blast
    from False have "bare_string (jid_target x) \<noteq> None" by (simp add: bare_string_None)
    with False l t have "normalizeXmppJid x \<noteq> None" by (simp add: normalizeXmppJid_target)
    with False show ?thesis by blast
  qed
  have b: "js_trim x = [] \<longrightarrow> normalizeXmppJid x = None"
    by (simp add: normalizeXmppJid_target)
  have c: "normalizeXmppJid x = Some v \<and> local_part_of x \<noteq> [] \<longrightarrow> normalizeXmppJid v = Some v"
  proof
    assume a: "normalizeXmppJid x = Some v \<and> local_part_of x \<noteq> []"
    define t where "t = jid_target x"
    define s1 where "s1 = takeWhile (\<lambda>c. c \<noteq> CHR ''/'') t"
    define l where "l = (if CHR ''@'' \<in> set s1 then takeWhile (\<lambda>c. c \<noteq> CHR ''@'') s1 else [])"
    define d where "d = (if CHR ''@'' \<in> set s1 then drop 1 (dropWhile (\<lambda>c. c \<noteq> CHR ''@'') s1) else s1)"
    from a have ll: "looksLikeXmppJid t" and bs: "bare_string t = Some v"
      unfolding t_def by (auto simp: normalizeXmppJid_target split: if_splits)
    from ll have pat: "XMPP_TARGET_PATTERN t"
      unfolding looksLikeXmppJid_def Let_def t_def jid_target_trimmed by (auto split: if_splits)
    then have nst: "list_all (\<lambda>c. \<not> js_space c) t" by (simp add: XMPP_TARGET_PATTERN_def)
    from bs have dne: "d \<noteq> []"
      and v: "v = jid_toString \<lparr>jlocal = setLocal l, jdomain = toLowerCase d, jresource = []\<rparr>"
      unfolding bare_string_alt Let_def s1_def[symmetric] l_def[symmetric] d_def[symmetric]
      by (auto split: if_splits)
    from dne obtain j where pj: "parseJid t = Some j"
      unfolding parseJid_alt Let_def s1_def[symmetric] l_def[symmetric] d_def[symmetric]
      by (simp add: jid_new_def)
    have "jlocal j = setLocal l"
      using parseJid_local[OF pj] unfolding Let_def s1_def[symmetric] l_def[symmetric] by simp
    with a pj have Lne: "setLocal l \<noteq> []" by (simp add: local_part_of_def t_def)
    have s1t: "set s1 \<subseteq> set t" unfolding s1_def by (auto dest: set_takeWhileD)
    have ls: "set l \<subseteq> set s1" unfolding l_def by (auto dest: set_takeWhileD)
    have ds: "set d \<subseteq> set s1" unfolding d_def
      by (auto dest!: in_set_dropD set_dropWhileD)
    have "CHR ''/'' \<notin> set s1" unfolding s1_def by (auto dest: set_takeWhileD)
    with ds have dsl: "CHR ''/'' \<notin> set d" by blast
    have sl: "(js_lower_char c = CHR ''/'') = (c = CHR ''/'')" for c
      by (rule lower_eq_uncased) (rule uncased_literals)
    have Dsl: "CHR ''/'' \<notin> set (toLowerCase d)"
    proof
      assume "CHR ''/'' \<in> set (toLowerCase d)"
      then obtain c where "c \<in> set d" "js_lower_char c = CHR ''/''"
        by (auto simp: toLowerCase_def)
      with sl dsl show False by simp
    qed
    have nsl: "list_all (\<lambda>c. \<not> js_space c) l" and nsd: "list_all (\<lambda>c. \<not> js_space c) d"
      using nst s1t ls ds by (auto simp: list_all_iff)
    have nsD: "list_all (\<lambda>c. \<not> js_space c) (toLowerCase d)"
      using nsd by (simp add: toLowerCase_def list_all_iff space_lower)
    have lL: "toLowerCase (setLocal l) = setLocal l"
      by (simp add: setLocal_def toLowerCase_idem)
    have "normalizeXmppJid (setLocal l @ CHR ''@'' # toLowerCase d)
            = Some (setLocal l @ CHR ''@'' # toLowerCase d)"
      using Lne setLocal_idem[of l] setLocal_specials[of _ l] setLocal_nospace[OF nsl] lL
            dne toLowerCase_idem[of d] Dsl nsD
      by (intro normalize_fixed) (auto simp: toLowerCase_def)
    moreover have "v = setLocal l @ CHR ''@'' # toLowerCase d"
      using v Lne by (simp add: jid_toString_def)
    ultimately show "normalizeXmppJid v = Some v" by simp
  qed
  from a b c show ?thesis by blast
qed

text \<open>
  Claim C8 on a JID with a prefix, blanks, capitals and a resource, on a local part that
  is escaped, and on invalid inputs.
\<close>

theorem C8_normalize_idempotent_witness:
  "normalizeXmppJid '' xmpp:Foo@Conference.Example/nick '' = Some ''foo@conference.example''
   \<and> local_part_of '' xmpp:Foo@Conference.Example/nick '' \<noteq> []
   \<and> normalizeXmppJid ''foo@conference.example'' = Some ''foo@conference.example''
   \<and> normalizeXmppJid ''user:A:b@C.example'' = Some (''a'' @ [backslash] @ ''3ab@c.example'')
   \<and> local_part_of ''user:A:b@C.example'' \<noteq> []
   \<and> normalizeXmppJid (''a'' @ [backslash] @ ''3ab@c.example'')
       = Some (''a'' @ [backslash] @ ''3ab@c.example'')
   \<and> normalizeXmppJid ''   '' = None
   \<and> normalizeXmppJid ''not a jid'' = None
   \<and> normalizeXmppJid ''room:'' = None
   \<and> XMPP_TARGET_PATTERN ''a@/x'' \<and> parseJid ''a@/x'' = None
   \<and> normalizeXmppJid ''a@/x'' = None"
proof -
  let ?x = "'' xmpp:Foo@Conference.Example/nick ''"
  let ?y = "''user:A:b@C.example''"
  have a: "normalizeXmppJid ?x = Some ''foo@conference.example''" by code_simp
  have b: "local_part_of ?x \<noteq> []" by code_simp
  have c: "normalizeXmppJid ?y = Some (''a'' @ [backslash] @ ''3ab@c.example'')" by code_simp
  have d: "local_part_of ?y \<noteq> []" by code_simp
  have e: "normalizeXmppJid ''   '' = None" "normalizeXmppJid ''not a jid'' = None"
    "normalizeXmppJid ''room:'' = None" "XMPP_TARGET_PATTERN ''a@/x''" "parseJid ''a@/x'' = None"
    by code_simp+
  have f: "jid_target ''a@/x'' = ''a@/x''" by code_simp
  from C8_normalize_idempotent[of ?x "''foo@conference.example''"] a b
  have 1: "normalizeXmppJid ''foo@conference.example'' = Some ''foo@conference.example''"
    by blast
  from C8_normalize_idempotent[of ?y "''a'' @ [backslash] @ ''3ab@c.example''"] c d
  have 2: "normalizeXmppJid (''a'' @ [backslash] @ ''3ab@c.example'')
             = Some (''a'' @ [backslash] @ ''3ab@c.example'')"
    by blast
  from C8_normalize_idempotent[of "''a@/x''"] e(5)
  have 3: "normalizeXmppJid ''a@/x'' = None" unfolding f by blast
  from a b c d e 1 2 3 show ?thesis by blast
qed

section \<open>Self messages, group senders and the type of a live reply\<close>

lemma bare_string_prefix:
  "bare_string frm = bare_string (takeWhile (\<lambda>c. c \<noteq> CHR ''/'') frm)"
proof -
  have "takeWhile (\<lambda>c. c \<noteq> CHR ''/'') (takeWhile (\<lambda>c. c \<noteq> CHR ''/'') frm)
          = takeWhile (\<lambda>c. c \<noteq> CHR ''/'') frm"
    by (intro takeWhile_all) (auto dest: set_takeWhileD)
  then show ?thesis unfolding bare_string_alt[of frm] bare_string_alt[of "takeWhile (\<lambda>c. c \<noteq> CHR ''/'') frm"]
    by simp
qed

lemma monitor_self_direct:
  assumes "evType e \<noteq> ''groupchat''"
    and "tSenderBareJid (resolveXmppInboundTarget (evFrom e) (evType e)) = bareJid account"
  shows "monitor_onMessage clientSet custom now freshId account e = []"
  using assms by (simp add: monitor_onMessage_def resolveXmppInboundTarget_def Let_def)

lemma monitor_self_group:
  assumes "evType e = ''groupchat''"
    and "tSenderBareJid (resolveXmppInboundTarget (evFrom e) (evType e)) = bareJid account"
    and "bare_string (bareJid account) = Some (bareJid account)"
  shows "monitor_onMessage clientSet custom now freshId account e = []"
proof -
  from assms(1,2) have "takeWhile (\<lambda>c. c \<noteq> CHR ''/'') (evFrom e) = bareJid account"
    by (simp add: group_target_fields)
  with assms(3) bare_string_prefix[of "evFrom e"]
  have "bare_string (evFrom e) = Some (bareJid account)" by simp
  then have "normalizeXmppBareJid (evFrom e) = bareJid account"
    by (simp add: normalizeXmppBareJid_def)
  then show ?thesis by (simp add: monitor_onMessage_def Let_def)
qed

text \<open>
  A bare JID that the JID library gives back for a JID with a local part, or for one
  without an @ before its resource, is in normal form: parsed again it is unchanged.
  So is the bare JID of an account whose configured JID has a local part.
\<close>

lemma lower_set_uncased:
  "\<not> js_cased x \<Longrightarrow> (x \<in> set (toLowerCase s)) = (x \<in> set s)"
proof (induction s)
  case Nil
  then show ?case by (simp add: toLowerCase_def)
next
  case (Cons a s)
  have "(x = js_lower_char a) = (x = a)" using lower_eq_uncased[OF Cons.prems, of a] by auto
  with Cons show ?case by (simp add: toLowerCase_def)
qed

lemma bare_string_normal:
  assumes b: "bare_string t = Some b"
    and l: "CHR ''@'' \<in> set (takeWhile (\<lambda>c. c \<noteq> CHR ''/'') t) \<longrightarrow>
              setLocal (takeWhile (\<lambda>c. c \<noteq> CHR ''@'') (takeWhile (\<lambda>c. c \<noteq> CHR ''/'') t)) \<noteq> []"
  shows "bare_string b = Some b"
proof -
  define s1 where "s1 = takeWhile (\<lambda>c. c \<noteq> CHR ''/'') t"
  have ns: "CHR ''/'' \<notin> set s1" unfolding s1_def by (auto dest: set_takeWhileD)
  show ?thesis
  proof (cases "CHR ''@'' \<in> set s1")
    case True
    define L where "L = setLocal (takeWhile (\<lambda>c. c \<noteq> CHR ''@'') s1)"
    define d where "d = drop 1 (dropWhile (\<lambda>c. c \<noteq> CHR ''@'') s1)"
    define D where "D = toLowerCase d"
    from l True have Ln: "L \<noteq> []" unfolding L_def s1_def by simp
    from b True have dn: "d \<noteq> []"
      unfolding bare_string_alt[of t] Let_def s1_def[symmetric] d_def by (simp split: if_splits)
    from b True dn have "b = jid_toString \<lparr>jlocal = L, jdomain = D, jresource = []\<rparr>"
      unfolding bare_string_alt[of t] Let_def s1_def[symmetric] d_def[symmetric] L_def D_def
      by simp
    then have bv: "b = L @ CHR ''@'' # D" using Ln by (simp add: jid_toString_def Let_def)
    have "set d \<subseteq> set s1" unfolding d_def
      by (meson set_drop_subset set_dropWhileD subsetI subset_trans)
    with ns have "CHR ''/'' \<notin> set d" by blast
    then have Ds: "CHR ''/'' \<notin> set D"
      unfolding D_def by (simp add: lower_set_uncased uncased_literals)
    have Dn: "D \<noteq> []" using dn by (simp add: D_def toLowerCase_def)
    have La: "CHR ''@'' \<notin> set L"
      using setLocal_specials[of "CHR ''@''" "takeWhile (\<lambda>c. c \<noteq> CHR ''@'') s1"]
      unfolding L_def by (auto simp: jid_special_def backslash_def)
    have Ls: "CHR ''/'' \<notin> set L"
      using setLocal_specials[of "CHR ''/''" "takeWhile (\<lambda>c. c \<noteq> CHR ''@'') s1"]
      unfolding L_def by (auto simp: jid_special_def backslash_def)
    have t1: "takeWhile (\<lambda>c. c \<noteq> CHR ''/'') b = b"
      unfolding bv using Ls Ds by (intro takeWhile_all) simp
    have t2: "takeWhile (\<lambda>c. c \<noteq> CHR ''@'') b = L" unfolding bv using La by (rule takeWhile_before)
    have t3: "dropWhile (\<lambda>c. c \<noteq> CHR ''@'') b = CHR ''@'' # D"
      unfolding bv using La by (rule dropWhile_before)
    have mem: "CHR ''@'' \<in> set b" unfolding bv by simp
    have i1: "setLocal L = L" unfolding L_def by (rule setLocal_idem)
    have i2: "toLowerCase D = D" unfolding D_def by (rule toLowerCase_idem)
    have "bare_string b = Some (jid_toString \<lparr>jlocal = L, jdomain = D, jresource = []\<rparr>)"
      unfolding bare_string_alt[of b] Let_def t1 t2 t3 using mem Dn by (simp add: i1 i2)
    also have "\<dots> = Some b" unfolding bv using Ln by (simp add: jid_toString_def Let_def)
    finally show ?thesis .
  next
    case False
    define D where "D = toLowerCase s1"
    from b False have sn: "s1 \<noteq> []"
      unfolding bare_string_alt[of t] Let_def s1_def[symmetric] by (simp split: if_splits)
    from b False sn have "b = jid_toString \<lparr>jlocal = setLocal [], jdomain = D, jresource = []\<rparr>"
      unfolding bare_string_alt[of t] Let_def s1_def[symmetric] D_def by simp
    then have bv: "b = D" by (simp add: jid_toString_def Let_def setLocal_Nil)
    have Ds: "CHR ''/'' \<notin> set D"
      unfolding D_def using ns by (simp add: lower_set_uncased uncased_literals)
    have Da: "CHR ''@'' \<notin> set D"
      unfolding D_def using False by (simp add: lower_set_uncased uncased_literals)
    have Dn: "D \<noteq> []" using sn by (simp add: D_def toLowerCase_def)
    have t1: "takeWhile (\<lambda>c. c \<noteq> CHR ''/'') D = D" using Ds by (rule takeWhile_all)
    have i2: "toLowerCase D = D" unfolding D_def by (rule toLowerCase_idem)
    have "bare_string D = Some D"
      unfolding bare_string_alt[of D] Let_def t1 using Da Dn
      by (simp add: i2 setLocal_Nil jid_toString_def Let_def)
    then show ?thesis unfolding bv .
  qed
qed

lemma resolved_bare_normal:
  assumes "parseJid (js_trim setting) = Some j" and "jlocal j \<noteq> []"
  shows "bare_string (resolved_bareJid setting) = Some (resolved_bareJid setting)"
proof -
  define t where "t = js_trim setting"
  define s1 where "s1 = takeWhile (\<lambda>c. c \<noteq> CHR ''/'') t"
  from assms(1) have tn: "t \<noteq> []"
    unfolding t_def[symmetric] parseJid_alt Let_def by (auto simp: jid_new_def split: if_splits)
  from assms(1) have "bare_string t \<noteq> None" by (simp add: bare_string_None t_def)
  then obtain b where b: "bare_string t = Some b" by blast
  then have rb: "resolved_bareJid setting = b"
    using tn by (simp add: resolved_bareJid_def Let_def t_def[symmetric] normalizeXmppBareJid_def)
  have jl: "jlocal j = setLocal (if CHR ''@'' \<in> set s1 then takeWhile (\<lambda>c. c \<noteq> CHR ''@'') s1 else [])"
    using parseJid_local[OF assms(1)[unfolded t_def[symmetric]]] unfolding Let_def s1_def by simp
  with assms(2) have "CHR ''@'' \<in> set s1 \<longrightarrow> setLocal (takeWhile (\<lambda>c. c \<noteq> CHR ''@'') s1) \<noteq> []"
    by auto
  from bare_string_normal[OF b this[unfolded s1_def]] show ?thesis unfolding rb .
qed

text \<open>
  Claim C5, as stated, fails: the configured JID \<^verbatim>\<open>@a:b@c\<close> gives the account the bare JID
  \<^verbatim>\<open>a:b@c\<close>; a groupchat stanza from \<^verbatim>\<open>a:b@c/nick\<close> has that sender bare JID, and it is
  recorded and handed to the pipeline.
\<close>

theorem C5_counterexample:
  "resolved_bareJid ''@a:b@c'' = ''a:b@c''
   \<and> tSenderBareJid (resolveXmppInboundTarget ''a:b@c/nick'' ''groupchat'') = ''a:b@c''
   \<and> monitor_onMessage True False 0 ''id-1''
        \<lparr>accountId = ''default'', configured = True, accJid = resolved_bareJid ''@a:b@c'',
         bareJid = resolved_bareJid ''@a:b@c'', config = allowlist_no_rooms\<rparr>
        \<lparr>evFrom = ''a:b@c/nick'', evTo = ''a:b@c'', evBody = ''hello'',
         evType = ''groupchat'', evId = None, evDelay = None\<rparr>
      = [RecordInboundActivity ''default'' 0,
         CallHandleXmppInbound
           \<lparr>messageId = ''id-1'', target = ''a:b@c'', senderJid = ''a:b@c/nick'',
            senderBareJid = ''a:b@c'', senderResource = None, senderNickname = Some ''nick'',
            text_body = ''hello'', timestamp = 0, isGroup = True, stanzaId = None\<rparr>]"
  by code_simp

text \<open>
  Claim C5, amended. When the sender's bare JID, as \<^verbatim>\<open>resolveXmppInboundTarget\<close> computes
  it, equals the account's bare JID, the \<^verbatim>\<open>onMessage\<close> callback returns before it records
  inbound activity and before it calls \<^verbatim>\<open>handleXmppInbound\<close> or a custom handler,
  provided that, for a groupchat stanza, the account's bare JID is in normal form (the
  JID library parses it and gives it back unchanged); that is so whenever the account's
  configured JID has a local part. For a groupchat stanza the sender's bare JID is the
  part of \<^verbatim>\<open>from\<close> before the first slash, while the check reads
  \<^verbatim>\<open>normalizeXmppBareJid(from)\<close>.
\<close>

theorem C5_self_messages_dropped:
  assumes "tSenderBareJid (resolveXmppInboundTarget (evFrom e) (evType e)) = bareJid account"
    and "evType e = ''groupchat'' \<longrightarrow>
           bare_string (bareJid account) = Some (bareJid account)
           \<or> (\<exists>setting j. bareJid account = resolved_bareJid setting
                  \<and> parseJid (js_trim setting) = Some j \<and> jlocal j \<noteq> [])"
  shows "monitor_onMessage clientSet custom now freshId account e = []
       \<and> (\<forall>m. CallHandleXmppInbound m
                 \<notin> set (monitor_onMessage clientSet custom now freshId account e))
       \<and> (\<forall>a t. RecordInboundActivity a t
                 \<notin> set (monitor_onMessage clientSet custom now freshId account e))"
proof -
  have "monitor_onMessage clientSet custom now freshId account e = []"
  proof (cases "evType e = ''groupchat''")
    case False
    with assms(1) show ?thesis by (rule monitor_self_direct[rotated])
  next
    case True
    with assms(2) resolved_bare_normal
    have "bare_string (bareJid account) = Some (bareJid account)" by metis
    with True assms(1) show ?thesis by (rule monitor_self_group)
  qed
  then show ?thesis by simp
qed

text \<open>
  Claim C5 for the account \<^verbatim>\<open>agent@localhost\<close>, configured as \<^verbatim>\<open>Agent@Localhost\<close>: a
  groupchat stanza and a direct message of its own are dropped, a direct message of
  another sender is recorded and handed on.
\<close>

theorem C5_self_messages_dropped_witness:
  "tSenderBareJid (resolveXmppInboundTarget ''agent@localhost/nick'' ''groupchat'')
     = bareJid (scenario_account allowlist_no_rooms)
   \<and> bareJid (scenario_account allowlist_no_rooms) = resolved_bareJid '' Agent@Localhost ''
   \<and> parseJid (js_trim '' Agent@Localhost '')
       = Some \<lparr>jlocal = ''agent'', jdomain = ''localhost'', jresource = []\<rparr>
   \<and> monitor_onMessage True False 0 ''id-2'' (scenario_account allowlist_no_rooms)
       \<lparr>evFrom = ''agent@localhost/nick'', evTo = ''r@conference.localhost'', evBody = ''hello'',
        evType = ''groupchat'', evId = None, evDelay = None\<rparr> = []
   \<and> tSenderBareJid (resolveXmppInboundTarget ''Agent@Localhost/phone'' ''chat'')
     = bareJid (scenario_account allowlist_no_rooms)
   \<and> monitor_onMessage True False 0 ''id-2'' (scenario_account allowlist_no_rooms)
       \<lparr>evFrom = ''Agent@Localhost/phone'', evTo = ''agent@localhost'', evBody = ''hello'',
        evType = ''chat'', evId = None, evDelay = None\<rparr> = []
   \<and> monitor_onMessage True False 0 ''id-2'' (scenario_account allowlist_no_rooms)
       \<lparr>evFrom = ''bob@localhost/phone'', evTo = ''agent@localhost'', evBody = ''hello'',
        evType = ''chat'', evId = None, evDelay = None\<rparr>
     = [RecordInboundActivity ''default'' 0,
        CallHandleXmppInbound
          \<lparr>messageId = ''id-2'', target = ''bob@localhost'', senderJid = ''bob@localhost/phone'',
           senderBareJid = ''bob@localhost'', senderResource = Some ''phone'',
           senderNickname = None, text_body = ''hello'', timestamp = 0, isGroup = False,
           stanzaId = None\<rparr>]"
proof -
  let ?acc = "scenario_account allowlist_no_rooms"
  let ?e = "\<lparr>evFrom = ''agent@localhost/nick'', evTo = ''r@conference.localhost'',
             evBody = ''hello'', evType = ''groupchat'', evId = None, evDelay = None\<rparr>"
  let ?d = "\<lparr>evFrom = ''Agent@Localhost/phone'', evTo = ''agent@localhost'', evBody = ''hello'',
        evType = ''chat'', evId = None, evDelay = None\<rparr>"
  have a: "tSenderBareJid (resolveXmppInboundTarget (evFrom ?e) (evType ?e)) = bareJid ?acc"
    by code_simp
  have b: "bareJid ?acc = resolved_bareJid '' Agent@Localhost ''" by code_simp
  have c: "parseJid (js_trim '' Agent@Localhost '')
             = Some \<lparr>jlocal = ''agent'', jdomain = ''localhost'', jresource = []\<rparr>"
    by code_simp
  have l: "jlocal \<lparr>jlocal = ''agent'', jdomain = ''localhost'', jresource = []\<rparr> \<noteq> []" by simp
  from b c l
  have h: "evType ?e = ''groupchat'' \<longrightarrow>
           bare_string (bareJid ?acc) = Some (bareJid ?acc)
           \<or> (\<exists>setting j. bareJid ?acc = resolved_bareJid setting
                  \<and> parseJid (js_trim setting) = Some j \<and> jlocal j \<noteq> [])"
    by blast
  from C5_self_messages_dropped[OF a h, of True False 0 "''id-2''"]
  have 1: "monitor_onMessage True False 0 ''id-2'' ?acc ?e = []" by blast
  have a2: "tSenderBareJid (resolveXmppInboundTarget (evFrom ?d) (evType ?d)) = bareJid ?acc"
    by code_simp
  have h2: "evType ?d = ''groupchat'' \<longrightarrow>
           bare_string (bareJid ?acc) = Some (bareJid ?acc)
           \<or> (\<exists>setting j. bareJid ?acc = resolved_bareJid setting
                  \<and> parseJid (js_trim setting) = Some j \<and> jlocal j \<noteq> [])"
    by simp
  from C5_self_messages_dropped[OF a2 h2, of True False 0 "''id-2''"]
  have 2: "monitor_onMessage True False 0 ''id-2'' ?acc ?d = []" by blast
  have 3: "monitor_onMessage True False 0 ''id-2'' ?acc
       \<lparr>evFrom = ''bob@localhost/phone'', evTo = ''agent@localhost'', evBody = ''hello'',
        evType = ''chat'', evId = None, evDelay = None\<rparr>
     = [RecordInboundActivity ''default'' 0,
        CallHandleXmppInbound
          \<lparr>messageId = ''id-2'', target = ''bob@localhost'', senderJid = ''bob@localhost/phone'',
           senderBareJid = ''bob@localhost'', senderResource = Some ''phone'',
           senderNickname = None, text_body = ''hello'', timestamp = 0, isGroup = False,
           stanzaId = None\<rparr>]"
    by code_simp
  from a b c 1 a2 2 3 show ?thesis by simp
qed

lemma candidates_bare:
  "senderBareJid m \<noteq> [] \<Longrightarrow> toLowerCase (senderBareJid m) \<in> set (buildXmppAllowlistCandidates m)"
  by (simp add: buildXmppAllowlistCandidates_def set_add_def Let_def split: option.splits)

text \<open>
  Claim C9. The inbound message built for a groupchat stanza has as sender bare JID the
  part of \<^verbatim>\<open>from\<close> before the first slash, which is also its target, and no sender
  resource; when that part is not empty, its lower case is among the allowlist
  candidates of the message.
\<close>

theorem C9_group_sender_is_room:
  assumes "evType e = ''groupchat''"
    and "CallHandleXmppInbound m \<in> set (monitor_onMessage clientSet custom now freshId account e)
         \<or> CallOnMessage m \<in> set (monitor_onMessage clientSet custom now freshId account e)"
  shows "isGroup m
       \<and> senderBareJid m = takeWhile (\<lambda>c. c \<noteq> CHR ''/'') (evFrom e)
       \<and> target m = senderBareJid m
       \<and> senderResource m = None
       \<and> (senderBareJid m \<noteq> [] \<longrightarrow>
            toLowerCase (senderBareJid m) \<in> set (buildXmppAllowlistCandidates m))"
proof -
  from assms have "isGroup m \<and> senderBareJid m = takeWhile (\<lambda>c. c \<noteq> CHR ''/'') (evFrom e)
       \<and> target m = senderBareJid m \<and> senderResource m = None"
    by (auto simp: monitor_onMessage_def Let_def group_target_fields split: if_splits)
  then show ?thesis using candidates_bare[of m] by blast
qed


text \<open>
  The room message of the spec's scenario 2: the candidates hold the room JID.
\<close>

theorem C9_group_sender_is_room_witness:
  "evType \<lparr>evFrom = ''r@conference.localhost/u'', evTo = ''agent@localhost'',
           evBody = ''hello room'', evType = ''groupchat'', evId = None, evDelay = None\<rparr>
     = ''groupchat''
   \<and> CallHandleXmppInbound (inbound_of ''r@conference.localhost/u'' ''groupchat'' ''hello room'')
       \<in> set (monitor_onMessage True False 0 ''id-1'' (scenario_account allowlist_no_rooms)
                \<lparr>evFrom = ''r@conference.localhost/u'', evTo = ''agent@localhost'',
                 evBody = ''hello room'', evType = ''groupchat'', evId = None, evDelay = None\<rparr>)
   \<and> senderBareJid (inbound_of ''r@conference.localhost/u'' ''groupchat'' ''hello room'')
       = ''r@conference.localhost''
   \<and> ''r@conference.localhost''
       \<in> set (buildXmppAllowlistCandidates
                (inbound_of ''r@conference.localhost/u'' ''groupchat'' ''hello room''))"
proof -
  let ?e = "\<lparr>evFrom = ''r@conference.localhost/u'', evTo = ''agent@localhost'',
             evBody = ''hello room'', evType = ''groupchat'', evId = None, evDelay = None\<rparr>"
  let ?m = "inbound_of ''r@conference.localhost/u'' ''groupchat'' ''hello room''"
  have a: "evType ?e = ''groupchat''" by simp
  have b: "monitor_onMessage True False 0 ''id-1'' (scenario_account allowlist_no_rooms) ?e
             = [RecordInboundActivity ''default'' 0, CallHandleXmppInbound ?m]"
    by code_simp
  then have c: "CallHandleXmppInbound ?m
         \<in> set (monitor_onMessage True False 0 ''id-1'' (scenario_account allowlist_no_rooms) ?e)"
    by simp
  have d: "takeWhile (\<lambda>c. c \<noteq> CHR ''/'') (evFrom ?e) = ''r@conference.localhost''" by simp
  have l: "toLowerCase ''r@conference.localhost'' = ''r@conference.localhost''" by code_simp
  from C9_group_sender_is_room[OF a, of ?m True False 0 "''id-1''" "scenario_account allowlist_no_rooms"] c
  have r: "senderBareJid ?m = takeWhile (\<lambda>c. c \<noteq> CHR ''/'') (evFrom ?e)"
    and i: "senderBareJid ?m \<noteq> [] \<longrightarrow>
            toLowerCase (senderBareJid ?m) \<in> set (buildXmppAllowlistCandidates ?m)"
    by blast+
  from r d have s: "senderBareJid ?m = ''r@conference.localhost''" by (rule trans)
  from i have "toLowerCase ''r@conference.localhost'' \<in> set (buildXmppAllowlistCandidates ?m)"
    unfolding s by simp
  then have "''r@conference.localhost'' \<in> set (buildXmppAllowlistCandidates ?m)"
    unfolding l .
  with a c s show ?thesis by blast
qed

lemma live_message_type_iff:
  "(live_message_type tgt = Groupchat)
     = (js_includes tgt ''@conference.'' \<or> js_includes tgt ''@muc.'')"
  by (simp add: live_message_type_def)

text \<open>
  Claim C10. A reply sent through the client given to \<^verbatim>\<open>deliverXmppReply\<close> goes to the
  target as it is, with type groupchat iff the target contains \<^verbatim>\<open>@conference.\<close> or
  \<^verbatim>\<open>@muc.\<close>. For \<^verbatim>\<open>room@chat.muc.example\<close>, which \<^verbatim>\<open>isRoomJid\<close> takes for a room, the
  reply through the client has type chat while \<^verbatim>\<open>sendMessageXmpp\<close> sends a groupchat.
\<close>

theorem C10_live_reply_type:
  "(deliverXmppReply h account True payload tgt = Inr sent \<longrightarrow>
      (\<forall>s \<in> set sent. obTo s = tgt
         \<and> (obType s = Groupchat) = (js_includes tgt ''@conference.'' \<or> js_includes tgt ''@muc.'')))
   \<and> isRoomJid ''room@chat.muc.example''
   \<and> deliverXmppReply scenario_host (scenario_account allowlist_no_rooms) True
        \<lparr>payloadText = Some ''hi'', mediaUrls = [], mediaUrl = None, replyToId = None\<rparr>
        ''room@chat.muc.example''
      = Inr [\<lparr>obTo = ''room@chat.muc.example'', obBody = ''hi'', obType = Chat\<rparr>]
   \<and> sendMessageXmpp scenario_host (scenario_account allowlist_no_rooms)
        ''room@chat.muc.example'' ''hi'' \<lparr>optReplyTo = None, optTarget = None\<rparr>
      = Inr \<lparr>obTo = ''room@chat.muc.example'', obBody = ''hi'', obType = Groupchat\<rparr>"
proof -
  have a: "deliverXmppReply h account True payload tgt = Inr sent \<longrightarrow>
      (\<forall>s \<in> set sent. obTo s = tgt
         \<and> (obType s = Groupchat) = (js_includes tgt ''@conference.'' \<or> js_includes tgt ''@muc.''))"
    by (auto simp: deliverXmppReply_def Let_def live_message_type_def split: if_splits)
  have b: "isRoomJid ''room@chat.muc.example''" by code_simp
  have c: "deliverXmppReply scenario_host (scenario_account allowlist_no_rooms) True
        \<lparr>payloadText = Some ''hi'', mediaUrls = [], mediaUrl = None, replyToId = None\<rparr>
        ''room@chat.muc.example''
      = Inr [\<lparr>obTo = ''room@chat.muc.example'', obBody = ''hi'', obType = Chat\<rparr>]"
    by code_simp
  have d: "sendMessageXmpp scenario_host (scenario_account allowlist_no_rooms)
        ''room@chat.muc.example'' ''hi'' \<lparr>optReplyTo = None, optTarget = None\<rparr>
      = Inr \<lparr>obTo = ''room@chat.muc.example'', obBody = ''hi'', obType = Groupchat\<rparr>"
    by code_simp
  from a b c d show ?thesis by blast
qed

text \<open>
  A reply through the client to a room under \<^verbatim>\<open>@conference.\<close> is a groupchat.
\<close>

theorem C10_live_reply_type_witness:
  "deliverXmppReply scenario_host (scenario_account allowlist_no_rooms) True
        \<lparr>payloadText = Some ''hi'', mediaUrls = [], mediaUrl = None, replyToId = None\<rparr>
        ''room@conference.localhost''
      = Inr [\<lparr>obTo = ''room@conference.localhost'', obBody = ''hi'', obType = Groupchat\<rparr>]
   \<and> js_includes ''room@conference.localhost'' ''@conference.''"
proof -
  have a: "deliverXmppReply scenario_host (scenario_account allowlist_no_rooms) True
        \<lparr>payloadText = Some ''hi'', mediaUrls = [], mediaUrl = None, replyToId = None\<rparr>
        ''room@conference.localhost''
      = Inr [\<lparr>obTo = ''room@conference.localhost'', obBody = ''hi'', obType = Groupchat\<rparr>]"
    by code_simp
  from C10_live_reply_type[of scenario_host "scenario_account allowlist_no_rooms"
      "\<lparr>payloadText = Some ''hi'', mediaUrls = [], mediaUrl = None, replyToId = None\<rparr>"
      "''room@conference.localhost''"
      "[\<lparr>obTo = ''room@conference.localhost'', obBody = ''hi'', obType = Groupchat\<rparr>]"] a
  have "(obType \<lparr>obTo = ''room@conference.localhost'', obBody = ''hi'', obType = Groupchat\<rparr>
           = Groupchat)
        = (js_includes ''room@conference.localhost'' ''@conference.''
           \<or> js_includes ''room@conference.localhost'' ''@muc.'')"
    by (simp del: js_includes.simps)
  moreover have "\<not> js_includes ''room@conference.localhost'' ''@muc.''" by code_simp
  ultimately have "js_includes ''room@conference.localhost'' ''@conference.''"
    by (simp del: js_includes.simps)
  with a show ?thesis by blast
qed

section \<open>Sending and connecting\<close>

lemma bare_string_no_slash:
  assumes "bare_string t = Some v"
  shows "CHR ''/'' \<notin> set v"
proof -
  define s1 where "s1 = takeWhile (\<lambda>c. c \<noteq> CHR ''/'') t"
  define l where "l = (if CHR ''@'' \<in> set s1 then takeWhile (\<lambda>c. c \<noteq> CHR ''@'') s1 else [])"
  define d where "d = (if CHR ''@'' \<in> set s1 then drop 1 (dropWhile (\<lambda>c. c \<noteq> CHR ''@'') s1) else s1)"
  from assms have v: "v = jid_toString \<lparr>jlocal = setLocal l, jdomain = toLowerCase d, jresource = []\<rparr>"
    unfolding bare_string_alt Let_def s1_def[symmetric] l_def[symmetric] d_def[symmetric]
    by (auto split: if_splits)
  have ds: "set d \<subseteq> set s1" unfolding d_def
    by (auto dest!: in_set_dropD set_dropWhileD)
  have "CHR ''/'' \<notin> set s1" unfolding s1_def by (auto dest: set_takeWhileD)
  with ds have dsl: "CHR ''/'' \<notin> set d" by blast
  have sl: "(js_lower_char c = CHR ''/'') = (c = CHR ''/'')" for c
    by (rule lower_eq_uncased) (rule uncased_literals)
  have Dsl: "CHR ''/'' \<notin> set (toLowerCase d)"
  proof
    assume "CHR ''/'' \<in> set (toLowerCase d)"
    then obtain c where "c \<in> set d" "js_lower_char c = CHR ''/''"
      by (auto simp: toLowerCase_def)
    with sl dsl show False by simp
  qed
  have Lsl: "CHR ''/'' \<notin> set (setLocal l)"
    using setLocal_specials[of "CHR ''/''" l] by (auto simp: jid_special_def backslash_def)
  show ?thesis unfolding v using Dsl Lsl by (simp add: jid_toString_def Let_def)
qed

lemma normalize_no_slash: "normalizeXmppJid x = Some v \<Longrightarrow> CHR ''/'' \<notin> set v"
  using bare_string_no_slash[of "jid_target x" v]
  by (auto simp: normalizeXmppJid_target split: if_splits)

lemma resolveTarget_Inr:
  "resolveTarget to opts = Inr t \<Longrightarrow>
     normalizeXmppJid to = Some t
     \<or> (normalizeXmppJid to = None
        \<and> normalizeXmppJid (case optTarget opts of None \<Rightarrow> [] | Some x \<Rightarrow> x) = Some t)"
  by (auto simp: resolveTarget_def normalizeXmppMessagingTarget_def split: option.splits)

lemma resolveTarget_Inl:
  "(resolveTarget to opts = Inl e) =
     (e = InvalidTarget to \<and> normalizeXmppJid to = None
      \<and> normalizeXmppJid (case optTarget opts of None \<Rightarrow> [] | Some x \<Rightarrow> x) = None)"
  by (auto simp: resolveTarget_def normalizeXmppMessagingTarget_def split: option.splits)

text \<open>
  Claim C6. For a configured account, \<^verbatim>\<open>sendMessageXmpp\<close> throws "Invalid XMPP target"
  iff neither its argument nor the target option normalises to a JID. When it sends, the
  stanza goes to the normalised target (of the argument, else of the option), which has
  no resource; its type is groupchat iff \<^verbatim>\<open>isRoomJid\<close> holds of that target; and its body is
  the converted text, followed by the marker of two line feeds and \<^verbatim>\<open>[reply:<id>]\<close> when a
  non-empty \<^verbatim>\<open>replyTo\<close> is given. A prefix \<^verbatim>\<open>xmpp:\<close>, \<^verbatim>\<open>user:\<close> or \<^verbatim>\<open>room:\<close> is stripped;
  \<^verbatim>\<open>foo@conference.example\<close> gets groupchat and \<^verbatim>\<open>alice@example.com\<close> gets chat.
\<close>

theorem C6_send_message:
  "(configured account \<longrightarrow>
      (sendMessageXmpp h account to txt opts = Inl (InvalidTarget to))
        = (normalizeXmppJid to = None
           \<and> normalizeXmppJid (case optTarget opts of None \<Rightarrow> [] | Some x \<Rightarrow> x) = None))
   \<and> (sendMessageXmpp h account to txt opts = Inr stanza \<longrightarrow>
        (normalizeXmppJid to = Some (obTo stanza)
         \<or> (normalizeXmppJid to = None
            \<and> normalizeXmppJid (case optTarget opts of None \<Rightarrow> [] | Some x \<Rightarrow> x)
                = Some (obTo stanza)))
        \<and> CHR ''/'' \<notin> set (obTo stanza)
        \<and> (obType stanza = Groupchat) = isRoomJid (obTo stanza)
        \<and> obBody stanza =
            convertMarkdownTables h (js_trim txt)
            @ (case optReplyTo opts of
                 None \<Rightarrow> []
               | Some r \<Rightarrow> (if r = [] then [] else [CHR 0x0A, CHR 0x0A] @ ''[reply:'' @ r @ '']'')))
   \<and> normalizeXmppJid ''xmpp:Foo@Conference.Example/nick'' = Some ''foo@conference.example''
   \<and> normalizeXmppJid ''user:alice@example.com'' = Some ''alice@example.com''
   \<and> normalizeXmppJid ''room:foo@conference.example'' = Some ''foo@conference.example''
   \<and> isRoomJid ''foo@conference.example'' \<and> \<not> isRoomJid ''alice@example.com''
   \<and> sendMessageXmpp scenario_host (scenario_account allowlist_no_rooms)
        ''foo@conference.example'' ''x'' \<lparr>optReplyTo = None, optTarget = None\<rparr>
      = Inr \<lparr>obTo = ''foo@conference.example'', obBody = ''x'', obType = Groupchat\<rparr>
   \<and> sendMessageXmpp scenario_host (scenario_account allowlist_no_rooms)
        ''alice@example.com'' ''x'' \<lparr>optReplyTo = Some ''m7'', optTarget = None\<rparr>
      = Inr \<lparr>obTo = ''alice@example.com'', obBody = ''x'' @ [CHR 0x0A, CHR 0x0A] @ ''[reply:m7]'',
             obType = Chat\<rparr>"
proof -
  have a: "configured account \<longrightarrow>
      (sendMessageXmpp h account to txt opts = Inl (InvalidTarget to))
        = (normalizeXmppJid to = None
           \<and> normalizeXmppJid (case optTarget opts of None \<Rightarrow> [] | Some x \<Rightarrow> x) = None)"
  proof
    assume c: "configured account"
    show "(sendMessageXmpp h account to txt opts = Inl (InvalidTarget to))
        = (normalizeXmppJid to = None
           \<and> normalizeXmppJid (case optTarget opts of None \<Rightarrow> [] | Some x \<Rightarrow> x) = None)"
    proof (cases "resolveTarget to opts")
      case (Inl e)
      with c show ?thesis using resolveTarget_Inl[of to opts e]
        by (simp add: sendMessageXmpp_def)
    next
      case (Inr t)
      then have "\<not> (normalizeXmppJid to = None
           \<and> normalizeXmppJid (case optTarget opts of None \<Rightarrow> [] | Some x \<Rightarrow> x) = None)"
        using resolveTarget_Inr[of to opts t] by auto
      moreover have "sendMessageXmpp h account to txt opts \<noteq> Inl (InvalidTarget to)"
        using c Inr by (simp add: sendMessageXmpp_def Let_def)
      ultimately show ?thesis by simp
    qed
  qed
  have b: "sendMessageXmpp h account to txt opts = Inr stanza \<longrightarrow>
        (normalizeXmppJid to = Some (obTo stanza)
         \<or> (normalizeXmppJid to = None
            \<and> normalizeXmppJid (case optTarget opts of None \<Rightarrow> [] | Some x \<Rightarrow> x)
                = Some (obTo stanza)))
        \<and> CHR ''/'' \<notin> set (obTo stanza)
        \<and> (obType stanza = Groupchat) = isRoomJid (obTo stanza)
        \<and> obBody stanza =
            convertMarkdownTables h (js_trim txt)
            @ (case optReplyTo opts of
                 None \<Rightarrow> []
               | Some r \<Rightarrow> (if r = [] then [] else [CHR 0x0A, CHR 0x0A] @ ''[reply:'' @ r @ '']''))"
  proof
    assume s: "sendMessageXmpp h account to txt opts = Inr stanza"
    then obtain t where t: "resolveTarget to opts = Inr t"
      by (cases "resolveTarget to opts") (auto simp: sendMessageXmpp_def split: if_splits)
    from s t have st: "obTo stanza = t"
      and ty: "(obType stanza = Groupchat) = isRoomJid t"
      and bo: "obBody stanza =
            convertMarkdownTables h (js_trim txt)
            @ (case optReplyTo opts of
                 None \<Rightarrow> []
               | Some r \<Rightarrow> (if r = [] then [] else [CHR 0x0A, CHR 0x0A] @ ''[reply:'' @ r @ '']''))"
      by (auto simp: sendMessageXmpp_def Let_def reply_marker_def split: if_splits option.splits)
    from resolveTarget_Inr[OF t] have n: "normalizeXmppJid to = Some t
         \<or> (normalizeXmppJid to = None
            \<and> normalizeXmppJid (case optTarget opts of None \<Rightarrow> [] | Some x \<Rightarrow> x) = Some t)" .
    then have "CHR ''/'' \<notin> set t" using normalize_no_slash by blast
    with st ty bo n show "(normalizeXmppJid to = Some (obTo stanza)
         \<or> (normalizeXmppJid to = None
            \<and> normalizeXmppJid (case optTarget opts of None \<Rightarrow> [] | Some x \<Rightarrow> x)
                = Some (obTo stanza)))
        \<and> CHR ''/'' \<notin> set (obTo stanza)
        \<and> (obType stanza = Groupchat) = isRoomJid (obTo stanza)
        \<and> obBody stanza =
            convertMarkdownTables h (js_trim txt)
            @ (case optReplyTo opts of
                 None \<Rightarrow> []
               | Some r \<Rightarrow> (if r = [] then [] else [CHR 0x0A, CHR 0x0A] @ ''[reply:'' @ r @ '']''))"
      by simp
  qed
  have c: "normalizeXmppJid ''xmpp:Foo@Conference.Example/nick'' = Some ''foo@conference.example''"
    by code_simp
  have d: "normalizeXmppJid ''user:alice@example.com'' = Some ''alice@example.com''" by code_simp
  have e: "normalizeXmppJid ''room:foo@conference.example'' = Some ''foo@conference.example''"
    by code_simp
  have f: "isRoomJid ''foo@conference.example''" by code_simp
  have g: "\<not> isRoomJid ''alice@example.com''" by code_simp
  have i: "sendMessageXmpp scenario_host (scenario_account allowlist_no_rooms)
        ''foo@conference.example'' ''x'' \<lparr>optReplyTo = None, optTarget = None\<rparr>
      = Inr \<lparr>obTo = ''foo@conference.example'', obBody = ''x'', obType = Groupchat\<rparr>"
    by code_simp
  have j: "sendMessageXmpp scenario_host (scenario_account allowlist_no_rooms)
        ''alice@example.com'' ''x'' \<lparr>optReplyTo = Some ''m7'', optTarget = None\<rparr>
      = Inr \<lparr>obTo = ''alice@example.com'', obBody = ''x'' @ [CHR 0x0A, CHR 0x0A] @ ''[reply:m7]'',
             obType = Chat\<rparr>"
    by code_simp
  from a b c d e f g i j show ?thesis by blast
qed

text \<open>
  A target that is no JID is refused, and a send to a conference room is a groupchat.
\<close>

theorem C6_send_message_witness:
  "configured (scenario_account allowlist_no_rooms)
   \<and> sendMessageXmpp scenario_host (scenario_account allowlist_no_rooms) ''not a jid'' ''x''
        \<lparr>optReplyTo = None, optTarget = None\<rparr> = Inl (InvalidTarget ''not a jid'')
   \<and> sendMessageXmpp scenario_host (scenario_account allowlist_no_rooms)
        ''foo@conference.example'' ''x'' \<lparr>optReplyTo = None, optTarget = None\<rparr>
      = Inr \<lparr>obTo = ''foo@conference.example'', obBody = ''x'', obType = Groupchat\<rparr>
   \<and> isRoomJid ''foo@conference.example''"
proof -
  let ?a = "scenario_account allowlist_no_rooms"
  let ?o = "\<lparr>optReplyTo = None, optTarget = None\<rparr>"
  have c: "configured ?a" by code_simp
  have n: "normalizeXmppJid ''not a jid'' = None" by code_simp
  have m: "normalizeXmppJid (case optTarget ?o of None \<Rightarrow> [] | Some x \<Rightarrow> x) = None" by code_simp
  have s: "sendMessageXmpp scenario_host ?a ''foo@conference.example'' ''x'' ?o
      = Inr \<lparr>obTo = ''foo@conference.example'', obBody = ''x'', obType = Groupchat\<rparr>"
    by code_simp
  from C6_send_message[of ?a scenario_host "''not a jid''" "''x''" ?o] c n m
  have 1: "sendMessageXmpp scenario_host ?a ''not a jid'' ''x'' ?o = Inl (InvalidTarget ''not a jid'')"
    by blast
  from C6_send_message[of ?a scenario_host "''foo@conference.example''" "''x''" ?o
      "\<lparr>obTo = ''foo@conference.example'', obBody = ''x'', obType = Groupchat\<rparr>"] s
  have "(obType \<lparr>obTo = ''foo@conference.example'', obBody = ''x'', obType = Groupchat\<rparr> = Groupchat)
          = isRoomJid (obTo \<lparr>obTo = ''foo@conference.example'', obBody = ''x'', obType = Groupchat\<rparr>)"
    by blast
  then have 2: "isRoomJid ''foo@conference.example''" by simp
  from c 1 s 2 show ?thesis by blast
qed


text \<open>
  Claim C7, as stated, fails: when the start never settles, the call ends in the timeout
  error after 15000 ms, and the only call made on the underlying client is the start;
  nothing stops or cancels it.
\<close>

theorem C7_counterexample:
  "connectXmppClient \<lparr>optJid = ''agent@localhost'', connectTimeoutMs = None\<rparr> NeverSettles
     = \<lparr>settled = Some (15000, Inl ConnectionTimeout), calls = [CallStart]\<rparr>
   \<and> CallStop \<notin> set (calls (connectXmppClient
                               \<lparr>optJid = ''agent@localhost'', connectTimeoutMs = None\<rparr>
                               NeverSettles))"
  by code_simp

text \<open>
  Claim C7, amended. The timeout is \<^verbatim>\<open>connectTimeoutMs\<close>, 15000 ms when it is absent or zero,
  and the probe passes its \<^verbatim>\<open>timeoutMs\<close> or 8000 ms. For a JID with a local part and a domain
  and a positive timeout: a start still pending when the timeout expires makes the call
  fail with the timeout error at that time, and a start that settles earlier decides
  the call. The start is called at most once (no retry) and never stopped: the pending
  start is left running.
\<close>

theorem C7_connect_timeout:
  "effective_timeout options =
     (case connectTimeoutMs options of None \<Rightarrow> 15000 | Some t \<Rightarrow> (if t = 0 then 15000 else t))
   \<and> connectTimeoutMs (probe_options account None) = Some 8000
   \<and> connectTimeoutMs (probe_options account (Some ms)) = Some ms
   \<and> (jid_localpart (optJid options) \<noteq> [] \<and> jid_domainpart (optJid options) \<noteq> []
        \<and> 0 < effective_timeout options \<and> still_pending start (effective_timeout options) \<longrightarrow>
        connectXmppClient options start
          = \<lparr>settled = Some (nat (effective_timeout options), Inl ConnectionTimeout),
             calls = [CallStart]\<rparr>)
   \<and> (jid_localpart (optJid options) \<noteq> [] \<and> jid_domainpart (optJid options) \<noteq> []
        \<and> 0 < effective_timeout options \<and> \<not> still_pending start (effective_timeout options) \<longrightarrow>
        (\<exists>t r. settled (connectXmppClient options start) = Some (t, r)
               \<and> int t < effective_timeout options \<and> r \<noteq> Inl ConnectionTimeout))
   \<and> CallStop \<notin> set (calls (connectXmppClient options start))
   \<and> length (filter (\<lambda>c. c = CallStart) (calls (connectXmppClient options start))) \<le> 1"
proof -
  have a: "effective_timeout options =
     (case connectTimeoutMs options of None \<Rightarrow> 15000 | Some t \<Rightarrow> (if t = 0 then 15000 else t))"
    by (simp add: effective_timeout_def)
  have b: "connectTimeoutMs (probe_options account None) = Some 8000"
    "connectTimeoutMs (probe_options account (Some ms)) = Some ms"
    by (simp_all add: probe_options_def)
  have c: "jid_localpart (optJid options) \<noteq> [] \<and> jid_domainpart (optJid options) \<noteq> []
        \<and> 0 < effective_timeout options \<and> still_pending start (effective_timeout options) \<longrightarrow>
        connectXmppClient options start
          = \<lparr>settled = Some (nat (effective_timeout options), Inl ConnectionTimeout),
             calls = [CallStart]\<rparr>"
    by (cases start) (auto simp: connectXmppClient_def Let_def still_pending_def)
  have d: "jid_localpart (optJid options) \<noteq> [] \<and> jid_domainpart (optJid options) \<noteq> []
        \<and> 0 < effective_timeout options \<and> \<not> still_pending start (effective_timeout options) \<longrightarrow>
        (\<exists>t r. settled (connectXmppClient options start) = Some (t, r)
               \<and> int t < effective_timeout options \<and> r \<noteq> Inl ConnectionTimeout)"
    by (cases start) (auto simp: connectXmppClient_def Let_def still_pending_def)
  have e: "CallStop \<notin> set (calls (connectXmppClient options start))"
    by (cases start) (auto simp: connectXmppClient_def Let_def)
  have f: "length (filter (\<lambda>c. c = CallStart) (calls (connectXmppClient options start))) \<le> 1"
    by (cases start) (auto simp: connectXmppClient_def Let_def)
  from a b c d e f show ?thesis by blast
qed

text \<open>
  The probe's default of 8000 ms: a start that would resolve after 9000 ms times out,
  one that resolves after 120 ms connects.
\<close>

theorem C7_connect_timeout_witness:
  "jid_localpart ''agent@localhost'' \<noteq> [] \<and> jid_domainpart ''agent@localhost'' \<noteq> []
   \<and> 0 < effective_timeout (probe_options (scenario_account allowlist_no_rooms) None)
   \<and> still_pending (Resolves 9000) (effective_timeout (probe_options (scenario_account allowlist_no_rooms) None))
   \<and> connectXmppClient (probe_options (scenario_account allowlist_no_rooms) None) (Resolves 9000)
       = \<lparr>settled = Some (8000, Inl ConnectionTimeout), calls = [CallStart]\<rparr>
   \<and> \<not> still_pending (Resolves 120) (effective_timeout (probe_options (scenario_account allowlist_no_rooms) None))
   \<and> settled (connectXmppClient (probe_options (scenario_account allowlist_no_rooms) None) (Resolves 120))
       = Some (120, Inr ''agent@localhost'')"
proof -
  let ?o = "probe_options (scenario_account allowlist_no_rooms) None"
  have j: "optJid ?o = ''agent@localhost''" by code_simp
  have a: "jid_localpart ''agent@localhost'' \<noteq> []" "jid_domainpart ''agent@localhost'' \<noteq> []"
    by code_simp+
  have t: "effective_timeout ?o = 8000" by code_simp
  have p: "still_pending (Resolves 9000) 8000" "\<not> still_pending (Resolves 120) 8000"
    by (simp_all add: still_pending_def)
  from C7_connect_timeout[of ?o "scenario_account allowlist_no_rooms" 0 "Resolves 9000"] a p
  have 1: "connectXmppClient ?o (Resolves 9000)
       = \<lparr>settled = Some (8000, Inl ConnectionTimeout), calls = [CallStart]\<rparr>"
    unfolding t j by simp
  have 2: "settled (connectXmppClient ?o (Resolves 120)) = Some (120, Inr ''agent@localhost'')"
    by code_simp
  from a p 1 2 show ?thesis unfolding t by simp
qed

section \<open>The mention gate\<close>









section \<open>The direct-message gate and pairing\<close>




















end
